theory Spec2Isabelle
  imports Complex_Main "HOL-Library.Product_Lexorder"
begin

section \<open>Common data model\<close>

text \<open>
  The pipeline works on pandas frames read with \<open>dtype=str\<close>: an ordered list of column
  names and a list of rows, each row a list of cells aligned with the columns. A cell is a
  string or NaN (\<open>None\<close>). Python strings are lists of code points; the column names of
  this program stay inside Latin-1, so a code point is a \<open>char\<close> (the letter n-tilde of
  the year column is code point 0xF1).
\<close>

type_synonym cell = "string option"

record frame =
  columns :: "string list"
  rows :: "cell list list"

text \<open>The exceptions the stages raise, each with its message; the messages are written
  without accents, symbols and interpolated paths.\<close>

datatype error =
    FileNotFoundError string
  | RuntimeError string
  | ZeroDivisionError
  | OverflowError
  | AttributeError
  | PsycopgError string

definition col_anio :: string where
  "col_anio = [CHR ''a'', CHR 0xF1, CHR ''o'']"

text \<open>\<open>str.lower\<close> on Latin-1 code points: A-Z and 0xC0-0xDE (except the multiplication
  sign 0xD7) gain bit 5.\<close>

fun lower_char :: "char \<Rightarrow> char" where
  "lower_char (Char b0 b1 b2 b3 b4 b5 b6 b7) =
     (let n = (of_char (Char b0 b1 b2 b3 b4 b5 b6 b7) :: nat)
      in if (65 \<le> n \<and> n \<le> 90) \<or> (192 \<le> n \<and> n \<le> 222 \<and> n \<noteq> 215)
         then Char b0 b1 b2 b3 b4 True b6 b7
         else Char b0 b1 b2 b3 b4 b5 b6 b7)"

definition lower :: "string \<Rightarrow> string" where
  "lower s = map lower_char s"

text \<open>Position of the first column with a given name, and the cell of a row under a
  column name (NaN when the row is too short, as pandas pads).\<close>

fun col_index :: "string \<Rightarrow> string list \<Rightarrow> nat option" where
  "col_index c [] = None"
| "col_index c (x # xs) =
     (if x = c then Some 0 else map_option Suc (col_index c xs))"

definition cell_of :: "string list \<Rightarrow> cell list \<Rightarrow> string \<Rightarrow> cell" where
  "cell_of cols r c =
     (case col_index c cols of
        None \<Rightarrow> None
      | Some i \<Rightarrow> (if i < length r then r ! i else None))"

text \<open>\<open>df.rename(columns={old: new})\<close>.\<close>

definition rename :: "string \<Rightarrow> string \<Rightarrow> string list \<Rightarrow> string list" where
  "rename old new cols = map (\<lambda>c. if c = old then new else c) cols"

text \<open>The \<open>for candidato in [...]: if candidato in columns: ...; break\<close> idiom: the first
  candidate that is a column.\<close>

fun first_present :: "string list \<Rightarrow> string list \<Rightarrow> string option" where
  "first_present [] cols = None"
| "first_present (c # cs) cols =
     (if c \<in> set cols then Some c else first_present cs cols)"

text \<open>\<open>Series.astype(str)\<close> on an object column: NaN becomes the text \<open>nan\<close>.\<close>

definition astype_str :: "cell \<Rightarrow> string" where
  "astype_str c = (case c of None \<Rightarrow> ''nan'' | Some s \<Rightarrow> s)"


section \<open>Join and imputation engine (\<open>merge.py\<close>)\<close>

text \<open>
  The lookup table \<open>df_pib\<close> after the rename of its key columns: the key cells are
  strings or NaN, the value is a number or NaN (\<open>pd.to_numeric(errors='coerce')\<close>).
  Floating-point values are modelled as reals: the claims below concern which rows carry a
  value and how many, not the rounding of a mean.
\<close>

record pib_row =
  anio_pib :: cell
  depto_codigo :: cell
  departamento :: cell
  valor_api_mm :: "real option"

text \<open>A row of \<open>chunk_merged\<close> once the auxiliary key columns are dropped: the source
  cells, the lookup's \<open>departamento\<close> and the value column.\<close>

record merged_row =
  src :: "cell list"
  depto_name :: cell
  pib_departamental_mm :: "real option"

definition anio_candidatos :: "string list" where
  "anio_candidatos = [''periodo'', ''estu_anoterminobachiller'', ''anio_origen'']"

definition depto_candidatos :: "string list" where
  "depto_candidatos =
     [''cole_cod_depto_ubicacion'', ''estu_cod_depto_presentacion'', ''cole_depto_ubicacion'']"

definition msg_sin_anio :: string where
  "msg_sin_anio = ''No se pudo encontrar una columna de '' @ col_anio @ '' en ICFES''"

definition msg_sin_depto :: string where
  "msg_sin_depto = ''No se encontro columna de codigo de departamento en ICFES''"

text \<open>Lines 88-98: the year column, with its fallback names.\<close>

definition preparar_anio :: "string list \<Rightarrow> error + string list" where
  "preparar_anio cols =
     (let cols1 =
        (if col_anio \<notin> set cols
         then (case first_present anio_candidatos cols of
                 Some c \<Rightarrow> rename c col_anio cols
               | None \<Rightarrow> cols)
         else cols)
      in if col_anio \<notin> set cols1 then Inl (RuntimeError msg_sin_anio) else Inr cols1)"

text \<open>Lines 100-116: the region column, \<open>depto_normalizado\<close> first.\<close>

definition elegir_depto :: "string list \<Rightarrow> error + string" where
  "elegir_depto cols =
     (if ''depto_normalizado'' \<in> set cols then Inr ''depto_normalizado''
      else (case first_present depto_candidatos cols of
              Some c \<Rightarrow> Inr c
            | None \<Rightarrow> Inl (RuntimeError msg_sin_depto)))"

text \<open>Lines 118-131: the left join of one source row on the string keys. pandas keeps
  the left order and emits one row per matching lookup row, or one row with NaN lookup
  columns when nothing matches. The left keys are strings (never NaN) after
  \<open>astype(str)\<close>.\<close>

definition matches :: "pib_row list \<Rightarrow> string \<Rightarrow> string \<Rightarrow> pib_row list" where
  "matches pib a d = filter (\<lambda>p. anio_pib p = Some a \<and> depto_codigo p = Some d) pib"

definition merge_row :: "pib_row list \<Rightarrow> string list \<Rightarrow> string \<Rightarrow> cell list \<Rightarrow> merged_row list" where
  "merge_row pib cols depto_col r =
     (let anio_merge = astype_str (cell_of cols r col_anio);
          depto_merge = astype_str (cell_of cols r depto_col);
          ms = matches pib anio_merge depto_merge
      in if ms = []
         then [\<lparr>src = r, depto_name = None, pib_departamental_mm = None\<rparr>]
         else map (\<lambda>p. \<lparr>src = r, depto_name = departamento p,
                          pib_departamental_mm = valor_api_mm p\<rparr>) ms)"

definition left_join :: "pib_row list \<Rightarrow> string list \<Rightarrow> string \<Rightarrow> cell list list \<Rightarrow> merged_row list" where
  "left_join pib cols depto_col rs = concat (map (merge_row pib cols depto_col) rs)"

text \<open>Line 138: \<open>notna().sum()\<close> of the value column.\<close>

definition con_valor :: "merged_row list \<Rightarrow> nat" where
  "con_valor ms = length (filter (\<lambda>m. pib_departamental_mm m \<noteq> None) ms)"

text \<open>Lines 157-167: the \<open>groupby\<close> on the year and \<open>depto_normalizado\<close> columns drops
  rows with a NaN key, and the mean of a group skips NaN values (NaN when none is left).
  A key is in the index when some row of the chunk carries it.\<close>

definition group_key :: "string list \<Rightarrow> merged_row \<Rightarrow> (string \<times> string) option" where
  "group_key cols m =
     (case (cell_of cols (src m) col_anio, cell_of cols (src m) ''depto_normalizado'') of
        (Some a, Some d) \<Rightarrow> Some (a, d)
      | _ \<Rightarrow> None)"

definition mean :: "real list \<Rightarrow> real option" where
  "mean vs = (if vs = [] then None else Some (sum_list vs / real (length vs)))"

definition group_values :: "string list \<Rightarrow> merged_row list \<Rightarrow> string \<times> string \<Rightarrow> real list" where
  "group_values cols ms k =
     concat (map (\<lambda>m. if group_key cols m = Some k
                       then (case pib_departamental_mm m of None \<Rightarrow> [] | Some v \<Rightarrow> [v])
                       else []) ms)"

definition promedios :: "string list \<Rightarrow> merged_row list \<Rightarrow> string \<times> string \<Rightarrow> real option option" where
  "promedios cols ms k =
     (if \<exists>m \<in> set ms. group_key cols m = Some k
      then Some (mean (group_values cols ms k))
      else None)"

definition imputar_pib :: "string list \<Rightarrow> merged_row list \<Rightarrow> merged_row \<Rightarrow> real option" where
  "imputar_pib cols ms row =
     (if pib_departamental_mm row = None
      then (case group_key cols row of
              None \<Rightarrow> pib_departamental_mm row
            | Some key \<Rightarrow> (case promedios cols ms key of
                             Some v \<Rightarrow> v
                           | None \<Rightarrow> pib_departamental_mm row))
      else pib_departamental_mm row)"

definition sin_valor :: "merged_row list \<Rightarrow> nat" where
  "sin_valor ms = length (filter (\<lambda>m. pib_departamental_mm m = None) ms)"

definition imputar :: "string list \<Rightarrow> merged_row list \<Rightarrow> merged_row list" where
  "imputar cols ms =
     (if sin_valor ms > 0 \<and> ''depto_normalizado'' \<in> set cols
      then map (\<lambda>m. m\<lparr>pib_departamental_mm := imputar_pib cols ms m\<rparr>) ms
      else ms)"

text \<open>The loop state: the two counters, the first-iteration flag and the output file. The
  counter \<open>total_con_pib\<close> starts as the Python integer 0 and becomes a numpy integer with
  the first chunk; the difference shows only when it is divided by zero.\<close>

record merge_state =
  primera_iteracion :: bool
  total_procesado :: nat
  total_con_pib :: nat
  out_columns :: "string list"
  out_rows :: "merged_row list"

definition estado_inicial :: merge_state where
  "estado_inicial = \<lparr>primera_iteracion = True, total_procesado = 0, total_con_pib = 0,
                       out_columns = [], out_rows = []\<rparr>"

text \<open>One iteration of the chunk loop (lines 81-188). The percentage of line 140 divides
  a numpy integer by the chunk length: for a chunk without rows it is NaN, not an
  exception, and it is only printed.\<close>

definition procesar_chunk :: "pib_row list \<Rightarrow> merge_state \<Rightarrow> frame \<Rightarrow> error + merge_state" where
  "procesar_chunk pib st chunk =
     (case preparar_anio (map lower (columns chunk)) of
        Inl e \<Rightarrow> Inl e
      | Inr cols \<Rightarrow>
          (case elegir_depto cols of
             Inl e \<Rightarrow> Inl e
           | Inr depto_col \<Rightarrow>
               (let chunk_merged = left_join pib cols depto_col (rows chunk);
                    con_pib = con_valor chunk_merged;
                    chunk_final = imputar cols chunk_merged
                in Inr \<lparr>primera_iteracion = False,
                         total_procesado = total_procesado st + length chunk_final,
                         total_con_pib = total_con_pib st + con_pib,
                         out_columns = (if primera_iteracion st
                                        then cols @ [''departamento'', ''pib_departamental_mm'']
                                        else out_columns st),
                         out_rows = out_rows st @ chunk_final\<rparr>)))"

fun procesar_chunks :: "pib_row list \<Rightarrow> merge_state \<Rightarrow> frame list \<Rightarrow> error + merge_state" where
  "procesar_chunks pib st [] = Inr st"
| "procesar_chunks pib st (c # cs) =
     (case procesar_chunk pib st c of
        Inl e \<Rightarrow> Inl e
      | Inr st' \<Rightarrow> procesar_chunks pib st' cs)"

record merge_result =
  merged_columns :: "string list"
  merged_rows :: "merged_row list"
  total_rows :: nat
  rows_with_pib :: nat
  rows_without_pib :: int
  pib_coverage :: real

text \<open>\<open>run\<close> of \<open>merge.py\<close>: the inputs are the chunks read from the consolidated file
  and the lookup table, \<open>None\<close> when the file does not exist. The summary at line 194 divides
  \<open>total_con_pib\<close> by \<open>total_procesado\<close>: with no chunk at all both are Python integers
  and the division raises; after a chunk the dividend is a numpy integer and the quotient
  is NaN, so the run goes on. The rounded percentage \<open>pct_with_pib\<close> (NaN in that case)
  is left out of the result record.\<close>

definition merge_run :: "frame list option \<Rightarrow> pib_row list option \<Rightarrow> error + merge_result" where
  "merge_run icfes pib_csv =
     (case icfes of
        None \<Rightarrow> Inl (FileNotFoundError ''No se encontro el archivo ICFES'')
      | Some chunks \<Rightarrow>
          (case pib_csv of
             None \<Rightarrow> Inl (FileNotFoundError ''No se encontro el archivo PIB'')
           | Some pib \<Rightarrow>
               (case procesar_chunks pib estado_inicial chunks of
                  Inl e \<Rightarrow> Inl e
                | Inr st \<Rightarrow>
                    if total_procesado st = 0 \<and> primera_iteracion st
                    then Inl ZeroDivisionError
                    else Inr \<lparr>merged_columns = out_columns st,
                              merged_rows = out_rows st,
                              total_rows = total_procesado st,
                              rows_with_pib = total_con_pib st,
                              rows_without_pib = int (total_procesado st) - int (total_con_pib st),
                              pib_coverage =
                                (if total_procesado st > 0
                                 then real (total_con_pib st) / real (total_procesado st)
                                 else 0)\<rparr>)))"

text \<open>Notions used to state the properties of the engine: the key of a lookup row, the
  presence of a year and of a region column among the lower-cased column names, and the
  rows of one chunk right after the left join.\<close>

definition pib_key :: "pib_row \<Rightarrow> cell \<times> cell" where
  "pib_key p = (anio_pib p, depto_codigo p)"

definition has_anio :: "string list \<Rightarrow> bool" where
  "has_anio cols = (col_anio \<in> set cols \<or> (\<exists>c \<in> set anio_candidatos. c \<in> set cols))"

definition has_depto :: "string list \<Rightarrow> bool" where
  "has_depto cols =
     (''depto_normalizado'' \<in> set cols \<or> (\<exists>c \<in> set depto_candidatos. c \<in> set cols))"

definition chunk_join :: "pib_row list \<Rightarrow> frame \<Rightarrow> merged_row list" where
  "chunk_join pib chunk =
     (case preparar_anio (map lower (columns chunk)) of
        Inl e \<Rightarrow> []
      | Inr cols \<Rightarrow>
          (case elegir_depto cols of
             Inl e \<Rightarrow> []
           | Inr depto_col \<Rightarrow> left_join pib cols depto_col (rows chunk)))"

definition chunk_out :: "pib_row list \<Rightarrow> frame \<Rightarrow> merged_row list" where
  "chunk_out pib chunk =
     (case preparar_anio (map lower (columns chunk)) of
        Inl e \<Rightarrow> []
      | Inr cols \<Rightarrow> imputar cols (chunk_join pib chunk))"

definition lacks_key :: "frame \<Rightarrow> bool" where
  "lacks_key c = (\<not> has_anio (map lower (columns c)) \<or> \<not> has_depto (map lower (columns c)))"

text \<open>Sample inputs: a chunk of two rows on the \<open>depto_normalizado\<close> path, a lookup table
  with one row, a lookup table in which one key occurs twice (once with a value, once
  without), and a chunk without data rows.\<close>

definition ex_chunk :: frame where
  "ex_chunk = \<lparr>columns = [col_anio, ''depto_normalizado'', ''punt_global''],
               rows = [[Some ''2019'', Some ''05'', Some ''300''],
                       [Some ''2019'', Some ''11'', Some ''280'']]\<rparr>"

definition ex_pib :: "pib_row list" where
  "ex_pib = [\<lparr>anio_pib = Some ''2019'', depto_codigo = Some ''05'',
              departamento = Some ''Antioquia'', valor_api_mm = Some 120\<rparr>]"

definition ex_pib_dup :: "pib_row list" where
  "ex_pib_dup = [\<lparr>anio_pib = Some ''2019'', depto_codigo = Some ''05'',
              departamento = Some ''Antioquia'', valor_api_mm = Some 120\<rparr>,
             \<lparr>anio_pib = Some ''2019'', depto_codigo = Some ''05'',
              departamento = Some ''Antioquia'', valor_api_mm = None\<rparr>]"

definition ex_res :: merge_result where
  "ex_res = \<lparr>merged_columns = [col_anio, ''depto_normalizado'', ''punt_global'',
                                 ''departamento'', ''pib_departamental_mm''],
             merged_rows =
               [\<lparr>src = [Some ''2019'', Some ''05'', Some ''300''],
                  depto_name = Some ''Antioquia'', pib_departamental_mm = Some 120\<rparr>,
                \<lparr>src = [Some ''2019'', Some ''11'', Some ''280''],
                  depto_name = None, pib_departamental_mm = None\<rparr>],
             total_rows = 2, rows_with_pib = 1, rows_without_pib = 1,
             pib_coverage = 1 / 2\<rparr>"

definition ex_estado :: merge_state where
  "ex_estado = \<lparr>primera_iteracion = False, total_procesado = 2, total_con_pib = 1,
                out_columns = merged_columns ex_res, out_rows = merged_rows ex_res\<rparr>"

definition ex_res_dup :: merge_result where
  "ex_res_dup = \<lparr>merged_columns = [col_anio, ''depto_normalizado'', ''punt_global'',
                                 ''departamento'', ''pib_departamental_mm''],
             merged_rows =
               [\<lparr>src = [Some ''2019'', Some ''05'', Some ''300''],
                  depto_name = Some ''Antioquia'', pib_departamental_mm = Some 120\<rparr>,
                \<lparr>src = [Some ''2019'', Some ''05'', Some ''300''],
                  depto_name = Some ''Antioquia'', pib_departamental_mm = Some 120\<rparr>,
                \<lparr>src = [Some ''2019'', Some ''11'', Some ''280''],
                  depto_name = None, pib_departamental_mm = None\<rparr>],
             total_rows = 3, rows_with_pib = 1, rows_without_pib = 2,
             pib_coverage = 1 / 3\<rparr>"




section \<open>Lookup normalizer (\<open>transform_api.py\<close>)\<close>

text \<open>\<open>str.isspace\<close> and \<open>str.strip\<close> on Latin-1 code points.\<close>

definition py_isspace :: "char \<Rightarrow> bool" where
  "py_isspace c =
     (let n = (of_char c :: nat)
      in (9 \<le> n \<and> n \<le> 13) \<or> (28 \<le> n \<and> n \<le> 32) \<or> n = 133 \<or> n = 160)"

definition strip :: "string \<Rightarrow> string" where
  "strip s = rev (dropWhile py_isspace (rev (dropWhile py_isspace s)))"

text \<open>
  The frame of \<open>run\<close> in \<open>transform_api.py\<close> after step 4 (line 75): the three key
  columns hold what \<open>_safe_numeric\<close> and the casts to \<open>Int64\<close> and \<open>Float64\<close> left, a
  number or \<open>NA\<close>; \<open>departamento\<close> is text (\<open>fillna("")\<close>), or the column is absent.
  The values are modelled as reals, and their sum as the sum of reals. An aggregated row
  (and a row that survived cleaning) has a number in each key column.
\<close>

record api_row =
  api_anio :: "int option"
  api_depto_divipola :: "int option"
  api_departamento :: string
  api_valor_api_mm :: "real option"

record api_frame =
  tiene_departamento :: bool
  api_rows :: "api_row list"

record grp_row =
  grp_anio :: int
  grp_depto_divipola :: int
  grp_departamento :: string
  grp_valor_api_mm :: real

text \<open>Line 79: \<open>dropna(subset=["anio", "depto_divipola", "valor_api_mm"])\<close>. The rows
  that survive have a number in each of the three columns.\<close>

definition limpiar :: "api_row \<Rightarrow> grp_row option" where
  "limpiar r =
     (case (api_anio r, api_depto_divipola r, api_valor_api_mm r) of
        (Some a, Some d, Some v) \<Rightarrow>
          Some \<lparr>grp_anio = a, grp_depto_divipola = d,
                grp_departamento = api_departamento r, grp_valor_api_mm = v\<rparr>
      | _ \<Rightarrow> None)"

definition dropna_claves :: "api_row list \<Rightarrow> grp_row list" where
  "dropna_claves rs = List.map_filter limpiar rs"

definition grp_key :: "grp_row \<Rightarrow> int \<times> int" where
  "grp_key g = (grp_anio g, grp_depto_divipola g)"

text \<open>Line 94: \<open>next((x for x in s if str(x).strip() != ""), "")\<close>.\<close>

fun primero_no_vacio :: "string list \<Rightarrow> string" where
  "primero_no_vacio [] = ''''"
| "primero_no_vacio (x # xs) = (if strip x \<noteq> '''' then x else primero_no_vacio xs)"

text \<open>Lines 87-97: \<open>groupby\<close> sorts the distinct keys; each group keeps the source row
  order.\<close>

definition grupo :: "grp_row list \<Rightarrow> int \<times> int \<Rightarrow> grp_row list" where
  "grupo rs k = filter (\<lambda>r. grp_key r = k) rs"

definition agregar :: "grp_row list \<Rightarrow> grp_row list" where
  "agregar rs =
     map (\<lambda>k. \<lparr>grp_anio = fst k, grp_depto_divipola = snd k,
                grp_departamento = primero_no_vacio (map grp_departamento (grupo rs k)),
                grp_valor_api_mm = sum_list (map grp_valor_api_mm (grupo rs k))\<rparr>)
         (sort (remdups (map grp_key rs)))"

definition msg_todas_invalidas :: string where
  "msg_todas_invalidas = ''[transform_api] Todas las filas quedaron invalidas tras limpieza.''"

text \<open>Lines 77-100 of \<open>run\<close>.\<close>

definition transform_api_run :: "api_frame \<Rightarrow> error + grp_row list" where
  "transform_api_run df =
     (let limpio = dropna_claves (api_rows df)
      in if length limpio = 0 then Inl (RuntimeError msg_todas_invalidas)
         else (let con_depto =
                     (if tiene_departamento df then limpio
                      else map (\<lambda>r. r\<lparr>grp_departamento := ''''\<rparr>) limpio)
               in Inr (agregar con_depto)))"

text \<open>The rows that survive cleaning, as the aggregation sees them (an absent
  \<open>departamento\<close> column is created empty at line 88).\<close>

definition sobrevivientes :: "api_frame \<Rightarrow> grp_row list" where
  "sobrevivientes df =
     (if tiene_departamento df then dropna_claves (api_rows df)
      else map (\<lambda>r. r\<lparr>grp_departamento := ''''\<rparr>) (dropna_claves (api_rows df)))"

definition ex_api :: api_frame where
  "ex_api = \<lparr>tiene_departamento = True,
             api_rows =
               [\<lparr>api_anio = Some 2019, api_depto_divipola = Some 5, api_departamento = '' '',
                  api_valor_api_mm = Some 100\<rparr>,
                \<lparr>api_anio = Some 2018, api_depto_divipola = Some 11, api_departamento = ''Bogota'',
                  api_valor_api_mm = Some 7\<rparr>,
                \<lparr>api_anio = Some 2019, api_depto_divipola = None, api_departamento = ''Choco'',
                  api_valor_api_mm = Some 1\<rparr>,
                \<lparr>api_anio = Some 2019, api_depto_divipola = Some 5, api_departamento = ''Antioquia'',
                  api_valor_api_mm = Some 20\<rparr>]\<rparr>"

definition ex_grp :: "grp_row list" where
  "ex_grp = [\<lparr>grp_anio = 2018, grp_depto_divipola = 11, grp_departamento = ''Bogota'',
               grp_valor_api_mm = 7\<rparr>,
             \<lparr>grp_anio = 2019, grp_depto_divipola = 5, grp_departamento = ''Antioquia'',
               grp_valor_api_mm = 120\<rparr>]"


section \<open>Consolidator (\<open>transform_icfes.py\<close>)\<close>

subsection \<open>\<open>float(str)\<close>, \<open>int(float)\<close> and the format \<open>02d\<close>\<close>

text \<open>
  \<open>_normalizar_departamento\<close> parses its argument with \<open>float\<close>, truncates with \<open>int\<close>
  and prints with the format \<open>02d\<close>. \<open>float\<close> accepts an optional sign, then \<open>inf\<close>,
  \<open>infinity\<close> or \<open>nan\<close> in any case, or decimal digits with an optional point and an
  optional exponent; single underscores may separate digits. The decimal value is rounded
  to the nearest IEEE double, ties to even. The double is kept exactly, as a sign, a
  mantissa and a binary exponent.
\<close>

definition is_digit :: "char \<Rightarrow> bool" where
  "is_digit c = (let n = (of_char c :: nat) in 48 \<le> n \<and> n \<le> 57)"

definition digit_val :: "char \<Rightarrow> nat" where
  "digit_val c = (of_char c :: nat) - 48"

text \<open>The value of a string of decimal digits.\<close>

definition digits_val :: "string \<Rightarrow> nat" where
  "digits_val ds = foldl (\<lambda>a c. 10 * a + digit_val c) 0 ds"

text \<open>The underscore rule: an underscore stands after a digit and before a digit.\<close>

fun underscores_ok :: "char \<Rightarrow> string \<Rightarrow> bool" where
  "underscores_ok prev [] = (prev \<noteq> CHR ''_'')"
| "underscores_ok prev (c # cs) =
     (if c = CHR ''_'' then is_digit prev \<and> underscores_ok c cs
      else (prev = CHR ''_'' \<longrightarrow> is_digit c) \<and> underscores_ok c cs)"

definition sin_guiones :: "string \<Rightarrow> string option" where
  "sin_guiones s =
     (if CHR 0x00 \<in> set s then None
      else if CHR ''_'' \<notin> set s then Some s
      else if underscores_ok (CHR 0x00) s then Some (filter (\<lambda>c. c \<noteq> CHR ''_'') s)
      else None)"

text \<open>A parsed literal: infinity, not-a-number, or sign, digits value and decimal
  exponent.\<close>

datatype literal = LInf bool | LNaN | LDec bool nat int

definition split_sign :: "string \<Rightarrow> bool \<times> string" where
  "split_sign s =
     (case s of
        [] \<Rightarrow> (False, [])
      | c # cs \<Rightarrow> (if c = CHR ''-'' then (True, cs)
                  else if c = CHR ''+'' then (False, cs)
                  else (False, s)))"

definition parse_inf_or_nan :: "string \<Rightarrow> literal option" where
  "parse_inf_or_nan s =
     (let r = lower (snd (split_sign s))
      in if r = ''inf'' \<or> r = ''infinity'' then Some (LInf (fst (split_sign s)))
         else if r = ''nan'' then Some LNaN
         else None)"

text \<open>The decimal grammar of the string-to-double conversion: digits, point, digits, with
  at least one digit; an exponent counts only when it has a digit; nothing may follow.
  More than \<open>10^9\<close> digits (leading zeros apart) or fraction digits are refused.\<close>

definition max_digits :: nat where
  "max_digits = 1000000000"

definition parse_exponent :: "string \<Rightarrow> (int \<times> string) option" where
  "parse_exponent s =
     (case s of
        [] \<Rightarrow> Some (0, [])
      | c # cs \<Rightarrow>
          (if c = CHR ''e'' \<or> c = CHR ''E''
           then (let (neg, r) = split_sign cs;
                     ds = takeWhile is_digit r
                 in if ds = [] then Some (0, s)
                    else Some ((if neg then - int (digits_val ds) else int (digits_val ds)),
                               dropWhile is_digit r))
           else Some (0, s)))"

definition parse_decimal :: "string \<Rightarrow> literal option" where
  "parse_decimal s =
     (let (neg, r1) = split_sign s;
          ip = takeWhile is_digit r1;
          r2 = dropWhile is_digit r1;
          fp = (case r2 of [] \<Rightarrow> [] | c # cs \<Rightarrow> if c = CHR ''.'' then takeWhile is_digit cs else []);
          r3 = (case r2 of [] \<Rightarrow> [] | c # cs \<Rightarrow> if c = CHR ''.'' then dropWhile is_digit cs else r2);
          ip1 = dropWhile (\<lambda>c. c = CHR ''0'') ip;
          ndigits = (if ip1 = [] then length (dropWhile (\<lambda>c. c = CHR ''0'') fp)
                     else length ip1 + length fp)
      in if ip @ fp = [] then None
         else if ndigits > max_digits \<or> length fp > max_digits then None
         else (case parse_exponent r3 of
                 None \<Rightarrow> None
               | Some (e, rest) \<Rightarrow>
                   if rest = [] then Some (LDec neg (digits_val (ip @ fp)) (e - int (length fp)))
                   else None))"

definition parse_float :: "string \<Rightarrow> literal option" where
  "parse_float s =
     (case sin_guiones s of
        None \<Rightarrow> None
      | Some t \<Rightarrow> (case parse_inf_or_nan t of
                     Some l \<Rightarrow> Some l
                   | None \<Rightarrow> parse_decimal t))"

text \<open>Rounding a positive fraction \<open>num / den\<close> to a double. \<open>bitlen\<close> is the number of
  binary digits; \<open>floor_log2\<close> the exponent of the leading bit of the fraction; the
  mantissa is the fraction scaled to 53 bits (fewer for subnormals) and rounded to the
  nearest integer, ties to even.\<close>

fun bitlen :: "nat \<Rightarrow> nat" where
  "bitlen n = (if n = 0 then 0 else Suc (bitlen (n div 2)))"

declare bitlen.simps [simp del]

definition floor_log2 :: "nat \<Rightarrow> nat \<Rightarrow> int" where
  "floor_log2 num den =
     (let k = int (bitlen num) - int (bitlen den)
      in if (if k \<ge> 0 then den * 2 ^ nat k \<le> num else den \<le> num * 2 ^ nat (- k))
         then k else k - 1)"

definition rne_div :: "nat \<Rightarrow> nat \<Rightarrow> nat" where
  "rne_div a b =
     (let q = a div b; r = a mod b
      in if 2 * r < b then q
         else if 2 * r > b then q + 1
         else if even q then q else q + 1)"

datatype double = DInf bool | DNaN | DFin bool nat int

definition round_double :: "nat \<Rightarrow> nat \<Rightarrow> (nat \<times> int) option" where
  "round_double num den =
     (if num = 0 then Some (0, 0)
      else (let e = max (floor_log2 num den - 52) (- 1074);
                m = (if e \<ge> 0 then rne_div num (den * 2 ^ nat e)
                     else rne_div (num * 2 ^ nat (- e)) den)
            in if e \<ge> 0 \<and> m * 2 ^ nat e \<ge> 2 ^ 1024 then None else Some (m, e)))"

definition py_float :: "string \<Rightarrow> double option" where
  "py_float s =
     (case parse_float s of
        None \<Rightarrow> None
      | Some (LInf neg) \<Rightarrow> Some (DInf neg)
      | Some LNaN \<Rightarrow> Some DNaN
      | Some (LDec neg d e) \<Rightarrow>
          (case (if e \<ge> 0 then round_double (d * 10 ^ nat e) 1
                 else round_double d (10 ^ nat (- e))) of
             None \<Rightarrow> Some (DInf neg)
           | Some (m, b) \<Rightarrow> Some (DFin neg m b)))"

text \<open>\<open>int(x)\<close> truncates toward zero; an infinity raises \<open>OverflowError\<close>, a NaN raises
  \<open>ValueError\<close> (\<open>None\<close> here, since the caller catches it).\<close>

definition trunc_double :: "nat \<Rightarrow> int \<Rightarrow> nat" where
  "trunc_double m e = (if e \<ge> 0 then m * 2 ^ nat e else m div 2 ^ nat (- e))"

definition py_int :: "double \<Rightarrow> error + int option" where
  "py_int x =
     (case x of
        DInf neg \<Rightarrow> Inl OverflowError
      | DNaN \<Rightarrow> Inr None
      | DFin neg m e \<Rightarrow>
          (let t = trunc_double m e
           in Inr (Some (if neg then - int t else int t))))"

text \<open>The non-negative integers that are doubles: below \<open>2^1024\<close>, with at most 53
  significant bits.\<close>

definition representable :: "nat \<Rightarrow> bool" where
  "representable r = (r < 2 ^ 1024 \<and> (\<exists>m e. r = m * 2 ^ e \<and> m < 2 ^ 53))"

text \<open>The format \<open>02d\<close>: decimal digits, zero-padded to width 2, the sign counting in the
  width.\<close>

fun digits :: "nat \<Rightarrow> string" where
  "digits n = (if n < 10 then [''0123456789'' ! n]
               else digits (n div 10) @ [''0123456789'' ! (n mod 10)])"

declare digits.simps [simp del]

definition format_02d :: "int \<Rightarrow> string" where
  "format_02d n =
     (if n < 0 then CHR ''-'' # digits (nat (- n))
      else (let d = digits (nat n) in if length d < 2 then CHR ''0'' # d else d))"

text \<open>The digits printed by the format, without the sign.\<close>

definition fmt_digits :: "int \<Rightarrow> string" where
  "fmt_digits n =
     (if n < 0 then digits (nat (- n))
      else if length (digits (nat n)) < 2 then CHR ''0'' # digits (nat n) else digits (nat n))"

text \<open>\<open>_normalizar_departamento\<close> (lines 64-80). The argument is a cell of the frame;
  \<open>pd.isna\<close> holds of NaN only.\<close>

definition normalizar_departamento :: "cell \<Rightarrow> error + cell" where
  "normalizar_departamento depto_str =
     (case depto_str of
        None \<Rightarrow> Inr None
      | Some s \<Rightarrow>
          (if strip s = '''' then Inr None
           else (let depto = strip s
                 in case py_float depto of
                      None \<Rightarrow> Inr None
                    | Some x \<Rightarrow>
                        (case py_int x of
                           Inl err \<Rightarrow> Inl err
                         | Inr None \<Rightarrow> Inr None
                         | Inr (Some codigo) \<Rightarrow> Inr (Some (format_02d codigo))))))"


subsection \<open>Reading a yearly file\<close>

text \<open>
  A yearly file: the stem of its name and the table parsed from it. \<open>_read_csv_robusto\<close>
  skips lines with too many fields, pads short lines, replaces missing cells by the empty
  text, strips the column names and keeps the first of the columns that share a name. From
  here on the column names of a frame are taken to be distinct where the code selects a
  column by name; a cell under a name is the cell of the first column of that name.
\<close>

record archivo =
  nombre :: string
  contenido :: frame

definition fillna_vacio :: "cell \<Rightarrow> cell" where
  "fillna_vacio c = (case c of None \<Rightarrow> Some '''' | Some s \<Rightarrow> Some s)"

fun primeras :: "string list \<Rightarrow> string list \<Rightarrow> bool list" where
  "primeras seen [] = []"
| "primeras seen (c # cs) = (c \<notin> set seen) # primeras (c # seen) cs"

definition seleccionar :: "bool list \<Rightarrow> 'a list \<Rightarrow> 'a list" where
  "seleccionar keep xs = map fst (filter snd (zip xs keep))"

definition read_csv_robusto :: "frame \<Rightarrow> frame" where
  "read_csv_robusto f =
     (let n = length (columns f);
          cols = map strip (columns f);
          filas = map (\<lambda>r. map fillna_vacio (r @ replicate (n - length r) None))
                      (filter (\<lambda>r. length r \<le> n) (rows f));
          keep = primeras [] cols
      in \<lparr>columns = seleccionar keep cols, rows = map (seleccionar keep) filas\<rparr>)"

subsection \<open>The year of a file name\<close>

text \<open>\<open>re.search\<close> of the two patterns of \<open>_extraer_anio_de_nombre\<close>: the first place where
  \<open>20\<close> and two digits stand, and the first place where four digits stand.\<close>

fun buscar_20dd :: "string \<Rightarrow> nat option" where
  "buscar_20dd (a # b # c # d # r) =
     (if a = CHR ''2'' \<and> b = CHR ''0'' \<and> is_digit c \<and> is_digit d
      then Some (digits_val [a, b, c, d])
      else buscar_20dd (b # c # d # r))"
| "buscar_20dd r = None"

fun buscar_dddd :: "string \<Rightarrow> nat option" where
  "buscar_dddd (a # b # c # d # r) =
     (if is_digit a \<and> is_digit b \<and> is_digit c \<and> is_digit d
      then Some (digits_val [a, b, c, d])
      else buscar_dddd (b # c # d # r))"
| "buscar_dddd r = None"

definition extraer_anio_de_nombre :: "string \<Rightarrow> int" where
  "extraer_anio_de_nombre nom =
     (case buscar_20dd nom of
        Some a \<Rightarrow> int a
      | None \<Rightarrow>
          (case buscar_dddd nom of
             Some anio \<Rightarrow> (if 2014 \<le> anio \<and> anio \<le> 2025 then int anio else 9999)
           | None \<Rightarrow> 9999))"

subsection \<open>One file\<close>

text \<open>\<open>df[name] = values\<close>: a new last column, or new cells for the column of that
  name.\<close>

definition set_column :: "string \<Rightarrow> cell list \<Rightarrow> frame \<Rightarrow> frame" where
  "set_column c vs f =
     (case col_index c (columns f) of
        None \<Rightarrow> \<lparr>columns = columns f @ [c], rows = map (\<lambda>(r, v). r @ [v]) (zip (rows f) vs)\<rparr>
      | Some i \<Rightarrow> \<lparr>columns = columns f, rows = map (\<lambda>(r, v). r[i := v]) (zip (rows f) vs)\<rparr>)"

definition columna :: "frame \<Rightarrow> string \<Rightarrow> cell list" where
  "columna f c = map (\<lambda>r. cell_of (columns f) r c) (rows f)"

text \<open>\<open>patron in col\<close> for texts.\<close>

fun empieza_con :: "string \<Rightarrow> string \<Rightarrow> bool" where
  "empieza_con [] s = True"
| "empieza_con (p # ps) [] = False"
| "empieza_con (p # ps) (c # cs) = (p = c \<and> empieza_con ps cs)"

fun contiene :: "string \<Rightarrow> string \<Rightarrow> bool" where
  "contiene p [] = (p = [])"
| "contiene p (c # cs) = (empieza_con p (c # cs) \<or> contiene p cs)"

definition columnas_mantener_patrones :: "string list" where
  "columnas_mantener_patrones =
     [''punt'', ''depto'', ''departamento'', ''estu_areareside'', ''cole_caracter'',
      ''cole_area_ubicacion'']"

definition anio_columnas :: "string list" where
  "anio_columnas = [''periodo'', ''PERIODO'', ''estu_anoterminobachiller'']"

definition depto_columnas :: "string list" where
  "depto_columnas =
     [''cole_cod_depto_ubicacion'', ''estu_cod_depto_presentacion'', ''estu_cod_reside_depto'']"

text \<open>\<open>list(dict.fromkeys(xs))\<close>: the first occurrence of each element, in order.\<close>

definition sin_repetir :: "string list \<Rightarrow> string list" where
  "sin_repetir xs = rev (remdups (rev xs))"

text \<open>\<open>df[depto_col].apply(_normalizar_departamento)\<close>: the first exception ends the
  run.\<close>

fun aplicar_normalizar :: "cell list \<Rightarrow> error + cell list" where
  "aplicar_normalizar [] = Inr []"
| "aplicar_normalizar (c # cs) =
     (case normalizar_departamento c of
        Inl e \<Rightarrow> Inl e
      | Inr v \<Rightarrow> (case aplicar_normalizar cs of
                    Inl e \<Rightarrow> Inl e
                  | Inr vs \<Rightarrow> Inr (v # vs)))"

definition columnas_seleccionadas :: "string list \<Rightarrow> string list" where
  "columnas_seleccionadas cols =
     sin_repetir
       ([col_anio]
        @ (if ''depto_normalizado'' \<in> set cols then [''depto_normalizado''] else [])
        @ filter (\<lambda>col. \<exists>patron \<in> set columnas_mantener_patrones.
                           contiene (lower patron) (lower col)) cols)"

definition dropna_criticas :: "frame \<Rightarrow> frame" where
  "dropna_criticas f =
     f\<lparr>rows := filter (\<lambda>r. cell_of (columns f) r col_anio \<noteq> None
                          \<and> (''depto_normalizado'' \<in> set (columns f)
                               \<longrightarrow> cell_of (columns f) r ''depto_normalizado'' \<noteq> None))
                    (rows f)\<rparr>"

text \<open>Lines 133-201 for one accepted file and its file-name year. When a year column is
  renamed although a column of the target name exists, the frame has two columns of that
  name and the string accessor raises \<open>AttributeError\<close>.\<close>

definition procesar_archivo :: "archivo \<Rightarrow> int \<Rightarrow> error + frame" where
  "procesar_archivo p anio =
     (let df = read_csv_robusto (contenido p);
          df1 = (case first_present anio_columnas (columns df) of
                   Some year_col \<Rightarrow> df\<lparr>columns := rename year_col col_anio (columns df)\<rparr>
                 | None \<Rightarrow> set_column col_anio
                             (replicate (length (rows df)) (Some (digits (nat anio)))) df)
      in if length (filter (\<lambda>c. c = col_anio) (columns df1)) > 1 then Inl AttributeError
         else
          (let df2 = set_column col_anio
                       (map (\<lambda>c. Some (take 4 (astype_str c))) (columna df1 col_anio)) df1;
               df3 = df2\<lparr>columns := map lower (columns df2)\<rparr>
           in case (case first_present depto_columnas (columns df3) of
                      Some depto_col \<Rightarrow>
                        (case aplicar_normalizar (columna df3 depto_col) of
                           Inl e \<Rightarrow> Inl e
                         | Inr vs \<Rightarrow> Inr (set_column ''depto_normalizado'' vs df3))
                    | None \<Rightarrow> Inr df3) of
                Inl e \<Rightarrow> Inl e
              | Inr df4 \<Rightarrow>
                  (let sel = columnas_seleccionadas (columns df4);
                       df5 = \<lparr>columns = sel,
                              rows = map (\<lambda>r. map (cell_of (columns df4) r) sel) (rows df4)\<rparr>
                   in Inr (dropna_criticas df5))))"

subsection \<open>The run\<close>

record consolidado =
  salida_columns :: "string list"
  salida_rows :: "cell list list"
  total_filas :: nat
  n_columns :: nat
  archivos_procesados :: nat
  anios :: "int list"

record icfes_state =
  ic_primera :: bool
  ic_total :: nat
  ic_header :: "string list"
  ic_rows :: "cell list list"
  ic_ncols :: nat

fun procesar_archivos :: "icfes_state \<Rightarrow> (archivo \<times> int) list \<Rightarrow> error + icfes_state" where
  "procesar_archivos st [] = Inr st"
| "procesar_archivos st ((p, anio) # ps) =
     (case procesar_archivo p anio of
        Inl e \<Rightarrow> Inl e
      | Inr df \<Rightarrow>
          procesar_archivos
            \<lparr>ic_primera = False,
             ic_total = ic_total st + length (rows df),
             ic_header = (if ic_primera st then columns df else ic_header st),
             ic_rows = ic_rows st @ rows df,
             ic_ncols = length (columns df)\<rparr> ps)"

text \<open>Lines 107-110: the year of each file name, the window 2015-2023, and the stable
  sort by year.\<close>

definition en_ventana :: "int \<Rightarrow> bool" where
  "en_ventana a = (2015 \<le> a \<and> a \<le> 2023)"

definition csvs_con_anio :: "archivo list \<Rightarrow> (archivo \<times> int) list" where
  "csvs_con_anio csvs =
     sort_key snd (filter (\<lambda>(p, a). en_ventana a)
                          (map (\<lambda>p. (p, extraer_anio_de_nombre (nombre p))) csvs))"

text \<open>\<open>run\<close> of \<open>transform_icfes.py\<close>: the files given by the caller, or else the files
  found in the data directory.\<close>

definition transform_icfes_run :: "archivo list \<Rightarrow> archivo list \<Rightarrow> error + consolidado" where
  "transform_icfes_run raw_csvs candidatos =
     (let csvs = (if raw_csvs \<noteq> [] then raw_csvs else candidatos)
      in if csvs = [] then Inl (FileNotFoundError ''No encontre CSV de ICFES'')
         else (let con_anio = csvs_con_anio csvs
               in if con_anio = []
                  then Inl (FileNotFoundError ''No encontre CSV de ICFES para 2015-2023'')
                  else (case procesar_archivos
                               \<lparr>ic_primera = True, ic_total = 0, ic_header = [],
                                ic_rows = [], ic_ncols = 0\<rparr> con_anio of
                          Inl e \<Rightarrow> Inl e
                        | Inr st \<Rightarrow>
                            Inr \<lparr>salida_columns = ic_header st,
                                 salida_rows = ic_rows st,
                                 total_filas = ic_total st,
                                 n_columns = ic_ncols st,
                                 archivos_procesados = length con_anio,
                                 anios = sort (map snd con_anio)\<rparr>)))"


text \<open>Notions used to state the properties of the Consolidator: acceptance of a file, and
  the files a run works on.\<close>

definition aceptado :: "archivo \<Rightarrow> bool" where
  "aceptado p = en_ventana (extraer_anio_de_nombre (nombre p))"

definition csvs_de :: "archivo list \<Rightarrow> archivo list \<Rightarrow> archivo list" where
  "csvs_de raw_csvs candidatos = (if raw_csvs \<noteq> [] then raw_csvs else candidatos)"

text \<open>The rows one accepted file contributes (none when its processing fails).\<close>

definition filas_de :: "archivo \<times> int \<Rightarrow> cell list list" where
  "filas_de pa = (case procesar_archivo (fst pa) (snd pa) of Inl e \<Rightarrow> [] | Inr df \<Rightarrow> rows df)"

text \<open>Sample files: a file of 2019 with a period column; a file named for 2019 whose
  period column says 2014; a file named for 2010 whose period column says 2019; a file with
  neither a year column nor a year in its name.\<close>

definition ex_2019 :: archivo where
  "ex_2019 = \<lparr>nombre = ''Examen_Saber_11_20194'',
              contenido = \<lparr>columns = [''PERIODO'', ''COLE_COD_DEPTO_UBICACION'', ''PUNT_GLOBAL'',
                                     ''ESTU_GENERO''],
                           rows = [[Some ''20194'', Some ''5'', Some ''300'', Some ''F''],
                                   [Some ''20194'', None, Some ''280'', Some ''M'']]\<rparr>\<rparr>"

definition ex_nombre_2019_periodo_2014 :: archivo where
  "ex_nombre_2019_periodo_2014 =
     \<lparr>nombre = ''Examen_Saber_11_2019'',
      contenido = \<lparr>columns = [''periodo'', ''punt_global''],
                   rows = [[Some ''20141'', Some ''250'']]\<rparr>\<rparr>"

definition ex_nombre_2010_periodo_2019 :: archivo where
  "ex_nombre_2010_periodo_2019 =
     \<lparr>nombre = ''Examen_Saber_11_2010'',
      contenido = \<lparr>columns = [''periodo'', ''punt_global''],
                   rows = [[Some ''20194'', Some ''310'']]\<rparr>\<rparr>"

definition ex_sin_anio :: archivo where
  "ex_sin_anio = \<lparr>nombre = ''notas'',
                  contenido = \<lparr>columns = [''punt_global''], rows = [[Some ''1'']]\<rparr>\<rparr>"

definition ex_consolidado :: consolidado where
  "ex_consolidado =
     \<lparr>salida_columns = [col_anio, ''depto_normalizado'', ''cole_cod_depto_ubicacion'',
                         ''punt_global''],
      salida_rows = [[Some ''2019'', Some ''05'', Some ''5'', Some ''300'']],
      total_filas = 1, n_columns = 4, archivos_procesados = 1, anios = [2019]\<rparr>"

definition ex_consolidado_2014 :: consolidado where
  "ex_consolidado_2014 =
     \<lparr>salida_columns = [col_anio, ''punt_global''],
      salida_rows = [[Some ''2014'', Some ''250'']],
      total_filas = 1, n_columns = 2, archivos_procesados = 1, anios = [2019]\<rparr>"


section \<open>Bulk loader (\<open>load_dw.py\<close>)\<close>

subsection \<open>The statement that creates the table\<close>






subsection \<open>The destination\<close>











subsection \<open>The run\<close>





section \<open>Verified properties\<close>

subsection \<open>Join and imputation engine\<close>

lemma matches_le_one:
  assumes "distinct (map pib_key pib)"
  shows "length (matches pib a d) \<le> 1"
  using assms
proof (induction pib)
  case Nil
  then show ?case by (simp add: matches_def)
next
  case (Cons p ps)
  show ?case
  proof (cases "anio_pib p = Some a \<and> depto_codigo p = Some d")
    case True
    have "matches ps a d = []"
    proof (rule ccontr)
      assume "matches ps a d \<noteq> []"
      then obtain q where "q \<in> set (matches ps a d)" by (cases "matches ps a d") auto
      then have "q \<in> set ps" "pib_key q = pib_key p"
        using True by (auto simp: matches_def pib_key_def)
      then have "pib_key p \<in> pib_key ` set ps" by (metis imageI)
      with Cons.prems show False by simp
    qed
    with True show ?thesis by (simp add: matches_def)
  next
    case False
    with Cons show ?thesis by (auto simp: matches_def)
  qed
qed

lemma merge_row_src: "map src (merge_row pib cols dc r) = replicate (length (merge_row pib cols dc r)) r"
  by (auto simp: merge_row_def Let_def map_replicate_const comp_def)

lemma merge_row_length_unique:
  assumes "distinct (map pib_key pib)"
  shows "length (merge_row pib cols dc r) = 1"
proof -
  let ?ms = "matches pib (astype_str (cell_of cols r col_anio)) (astype_str (cell_of cols r dc))"
  have "length ?ms \<le> 1" using assms by (rule matches_le_one)
  then show ?thesis
    by (cases ?ms) (auto simp: merge_row_def Let_def)
qed

lemma left_join_src_unique:
  assumes "distinct (map pib_key pib)"
  shows "map src (left_join pib cols dc rs) = rs"
proof (induction rs)
  case Nil
  show ?case by (simp add: left_join_def)
next
  case (Cons r rs)
  have "map src (merge_row pib cols dc r) = [r]"
    using merge_row_src[of pib cols dc r] merge_row_length_unique[OF assms, of cols dc r] by simp
  with Cons show ?case by (simp add: left_join_def)
qed

lemma imputar_src: "map src (imputar cols ms) = map src ms"
  by (simp add: imputar_def comp_def)

lemma imputar_length: "length (imputar cols ms) = length ms"
  by (simp add: imputar_def)

lemma first_present_None: "first_present cs cols = None \<longleftrightarrow> (\<forall>c \<in> set cs. c \<notin> set cols)"
  by (induction cs) auto

lemma first_present_Some: "first_present cs cols = Some c \<Longrightarrow> c \<in> set cs \<and> c \<in> set cols"
  by (induction cs) (auto split: if_splits)

lemma rename_mem: "c \<in> set cols \<Longrightarrow> new \<in> set (rename c new cols)"
  by (auto simp: rename_def)

lemma rename_other: "d \<noteq> c \<Longrightarrow> d \<noteq> new \<Longrightarrow> d \<in> set (rename c new cols) \<longleftrightarrow> d \<in> set cols"
  by (auto simp: rename_def)

lemma preparar_anio_Inl:
  "preparar_anio cols = Inl e \<longleftrightarrow> \<not> has_anio cols \<and> e = RuntimeError msg_sin_anio"
proof (cases "col_anio \<in> set cols")
  case True
  then show ?thesis by (auto simp: preparar_anio_def has_anio_def)
next
  case False
  show ?thesis
  proof (cases "first_present anio_candidatos cols")
    case None
    then have nc: "\<forall>c \<in> set anio_candidatos. c \<notin> set cols"
      by (simp add: first_present_None)
    with False None show ?thesis
      by (auto simp: preparar_anio_def has_anio_def Let_def)
  next
    case (Some c)
    then have c: "c \<in> set anio_candidatos" "c \<in> set cols"
      using first_present_Some by blast+
    then have "col_anio \<in> set (rename c col_anio cols)" by (simp add: rename_mem)
    with False Some c show ?thesis
      by (auto simp: preparar_anio_def has_anio_def Let_def)
  qed
qed

lemma preparar_anio_has_depto:
  assumes "preparar_anio cols = Inr cols1"
  shows "has_depto cols1 = has_depto cols" and "''depto_normalizado'' \<in> set cols1 \<longleftrightarrow> ''depto_normalizado'' \<in> set cols"
proof -
  have *: "d \<in> set cols1 \<longleftrightarrow> d \<in> set cols"
    if "d \<in> set (''depto_normalizado'' # depto_candidatos)" for d
  proof (cases "col_anio \<notin> set cols \<and> first_present anio_candidatos cols \<noteq> None")
    case True
    then obtain c where c: "first_present anio_candidatos cols = Some c" by auto
    then have "c \<in> set anio_candidatos" using first_present_Some by blast
    with that have "d \<noteq> c" "d \<noteq> col_anio"
      by (auto simp: anio_candidatos_def depto_candidatos_def col_anio_def)
    moreover have "cols1 = rename c col_anio cols"
      using assms True c by (auto simp: preparar_anio_def Let_def split: if_splits)
    ultimately show ?thesis by (simp add: rename_other)
  next
    case False
    then have "cols1 = cols"
      using assms by (auto simp: preparar_anio_def Let_def split: if_splits option.splits)
    then show ?thesis by simp
  qed
  show "has_depto cols1 = has_depto cols"
    unfolding has_depto_def using * by (metis list.set_intros(1) list.set_intros(2))
  show "''depto_normalizado'' \<in> set cols1 \<longleftrightarrow> ''depto_normalizado'' \<in> set cols"
    using * by simp
qed

lemma elegir_depto_Inl:
  "elegir_depto cols = Inl e \<longleftrightarrow> \<not> has_depto cols \<and> e = RuntimeError msg_sin_depto"
  by (auto simp: elegir_depto_def has_depto_def first_present_None
           split: option.splits dest: first_present_Some)

lemma procesar_chunk_Inl:
  "(\<exists>e. procesar_chunk pib st c = Inl e) \<longleftrightarrow> lacks_key c"
proof (cases "preparar_anio (map lower (columns c))")
  case (Inl e)
  then show ?thesis
    using preparar_anio_Inl[of "map lower (columns c)" e]
    by (auto simp: procesar_chunk_def lacks_key_def)
next
  case (Inr cols)
  then have a: "has_anio (map lower (columns c))"
    using preparar_anio_Inl[of "map lower (columns c)"] by (metis Inl_Inr_False)
  have d: "has_depto cols = has_depto (map lower (columns c))"
    using preparar_anio_has_depto(1)[OF Inr] .
  show ?thesis
  proof (cases "elegir_depto cols")
    case (Inl e)
    with Inr a d show ?thesis
      using elegir_depto_Inl[of cols e] by (auto simp: procesar_chunk_def lacks_key_def)
  next
    case (Inr dc)
    then have "has_depto cols" using elegir_depto_Inl[of cols] by (metis Inl_Inr_False)
    with Inr \<open>preparar_anio _ = Inr cols\<close> a d show ?thesis
      by (auto simp: procesar_chunk_def lacks_key_def Let_def)
  qed
qed


lemma procesar_chunk_Inr:
  assumes "procesar_chunk pib st c = Inr st'"
  shows "out_rows st' = out_rows st @ chunk_out pib c"
    and "total_procesado st' = total_procesado st + length (chunk_join pib c)"
    and "total_con_pib st' = total_con_pib st + con_valor (chunk_join pib c)"
    and "primera_iteracion st' = False"
  using assms
  by (auto simp: procesar_chunk_def chunk_out_def chunk_join_def Let_def imputar_length
           split: sum.splits)

lemma procesar_chunks_Inl:
  "(\<exists>e. procesar_chunks pib st cs = Inl e) \<longleftrightarrow> (\<exists>c \<in> set cs. lacks_key c)"
proof (induction cs arbitrary: st)
  case Nil
  show ?case by simp
next
  case (Cons c cs)
  show ?case
  proof (cases "procesar_chunk pib st c")
    case (Inl e)
    then have "lacks_key c" using procesar_chunk_Inl by blast
    with Inl show ?thesis by simp
  next
    case (Inr st')
    then have "\<not> lacks_key c" using procesar_chunk_Inl[of pib st c] by simp
    with Inr Cons.IH[of st'] show ?thesis by simp
  qed
qed


lemma con_valor_append: "con_valor (xs @ ys) = con_valor xs + con_valor ys"
  by (simp add: con_valor_def)

lemma procesar_chunks_Inr:
  assumes "procesar_chunks pib st cs = Inr st'"
  shows "out_rows st' = out_rows st @ concat (map (chunk_out pib) cs)
       \<and> total_procesado st' = total_procesado st + length (concat (map (chunk_join pib) cs))
       \<and> total_con_pib st' = total_con_pib st + con_valor (concat (map (chunk_join pib) cs))
       \<and> primera_iteracion st' = (primera_iteracion st \<and> cs = [])"
  using assms
proof (induction cs arbitrary: st)
  case Nil
  then show ?case by (simp add: con_valor_def)
next
  case (Cons c cs)
  from Cons.prems obtain st1 where s1: "procesar_chunk pib st c = Inr st1"
    and s2: "procesar_chunks pib st1 cs = Inr st'"
    by (auto split: sum.splits)
  from Cons.IH[OF s2] procesar_chunk_Inr[OF s1] show ?case
    by (simp add: con_valor_append)
qed

lemma merge_row_value:
  assumes "distinct (map pib_key pib)" and "m \<in> set (merge_row pib cols dc r)"
  shows "src m = r"
    and "pib_departamental_mm m =
           (case matches pib (astype_str (cell_of cols r col_anio)) (astype_str (cell_of cols r dc)) of
              [] \<Rightarrow> None | p # ps \<Rightarrow> valor_api_mm p)"
proof -
  let ?ms = "matches pib (astype_str (cell_of cols r col_anio)) (astype_str (cell_of cols r dc))"
  have le: "length ?ms \<le> 1" using assms(1) by (rule matches_le_one)
  show "src m = r" using assms(2) by (auto simp: merge_row_def Let_def split: if_splits)
  show "pib_departamental_mm m = (case ?ms of [] \<Rightarrow> None | p # ps \<Rightarrow> valor_api_mm p)"
  proof (cases ?ms)
    case Nil
    with assms(2) show ?thesis by (simp add: merge_row_def Let_def)
  next
    case (Cons p ps)
    with le have "ps = []" by simp
    with Cons assms(2) show ?thesis by (simp add: merge_row_def Let_def)
  qed
qed

lemma same_group_same_value:
  assumes d: "distinct (map pib_key pib)"
    and m: "m \<in> set (left_join pib cols ''depto_normalizado'' rs)"
    and m': "m' \<in> set (left_join pib cols ''depto_normalizado'' rs)"
    and k: "group_key cols m = Some k" and k': "group_key cols m' = Some k"
  shows "pib_departamental_mm m' = pib_departamental_mm m"
proof -
  from m obtain r where r: "m \<in> set (merge_row pib cols ''depto_normalizado'' r)"
    by (auto simp: left_join_def)
  from m' obtain r' where r': "m' \<in> set (merge_row pib cols ''depto_normalizado'' r')"
    by (auto simp: left_join_def)
  note v = merge_row_value[OF d r] and v' = merge_row_value[OF d r']
  from k v(1) have "cell_of cols r col_anio = Some (fst k)"
      "cell_of cols r ''depto_normalizado'' = Some (snd k)"
    by (auto simp: group_key_def split: option.splits)
  moreover from k' v'(1) have "cell_of cols r' col_anio = Some (fst k)"
      "cell_of cols r' ''depto_normalizado'' = Some (snd k)"
    by (auto simp: group_key_def split: option.splits)
  ultimately show ?thesis using v(2) v'(2) by simp
qed

lemma group_values_empty:
  assumes "\<forall>m \<in> set ms. group_key cols m = Some k \<longrightarrow> pib_departamental_mm m = None"
  shows "group_values cols ms k = []"
  using assms
proof (induction ms)
  case Nil
  show ?case by (simp add: group_values_def)
next
  case (Cons m ms)
  have step: "group_values cols (m # ms) k =
      (if group_key cols m = Some k
       then (case pib_departamental_mm m of None \<Rightarrow> [] | Some v \<Rightarrow> [v]) else [])
      @ group_values cols ms k"
    by (simp add: group_values_def)
  have here: "group_key cols m = Some k \<longrightarrow> pib_departamental_mm m = None"
    using Cons.prems by simp
  have rest: "group_values cols ms k = []"
    using Cons.IH Cons.prems by simp
  show ?case unfolding step rest using here by simp
qed

lemma imputar_pib_unique:
  assumes d: "distinct (map pib_key pib)"
    and m: "m \<in> set (left_join pib cols ''depto_normalizado'' rs)"
  shows "imputar_pib cols (left_join pib cols ''depto_normalizado'' rs) m = pib_departamental_mm m"
proof (cases "pib_departamental_mm m = None")
  case False
  then show ?thesis by (auto simp: imputar_pib_def)
next
  case True
  let ?J = "left_join pib cols ''depto_normalizado'' rs"
  show ?thesis
  proof (cases "group_key cols m")
    case None
    with True show ?thesis by (simp add: imputar_pib_def)
  next
    case (Some k)
    have "\<forall>m' \<in> set ?J. group_key cols m' = Some k \<longrightarrow> pib_departamental_mm m' = None"
    proof (intro ballI impI)
      fix m' assume "m' \<in> set ?J" "group_key cols m' = Some k"
      then have "pib_departamental_mm m' = pib_departamental_mm m"
        by (rule same_group_same_value[OF d m _ Some])
      with True show "pib_departamental_mm m' = None" by simp
    qed
    then have "group_values cols ?J k = []" by (rule group_values_empty)
    then have "promedios cols ?J k = Some None"
      using m Some by (auto simp: promedios_def mean_def)
    with True Some show ?thesis by (simp add: imputar_pib_def)
  qed
qed

lemma imputar_identity:
  assumes "distinct (map pib_key pib)"
  shows "imputar cols (left_join pib cols ''depto_normalizado'' rs)
           = left_join pib cols ''depto_normalizado'' rs"
proof -
  let ?J = "left_join pib cols ''depto_normalizado'' rs"
  have "map (\<lambda>m. m\<lparr>pib_departamental_mm := imputar_pib cols ?J m\<rparr>) ?J = map (\<lambda>m. m) ?J"
    by (rule map_cong) (simp_all add: imputar_pib_unique[OF assms])
  then show ?thesis by (simp add: imputar_def)
qed

lemma imputar_without_depto: "''depto_normalizado'' \<notin> set cols \<Longrightarrow> imputar cols ms = ms"
  by (simp add: imputar_def)

lemma chunk_out_unique:
  assumes "distinct (map pib_key pib)"
  shows "chunk_out pib c = chunk_join pib c"
proof (cases "preparar_anio (map lower (columns c))")
  case (Inl e)
  then show ?thesis by (simp add: chunk_out_def chunk_join_def)
next
  case (Inr cols)
  show ?thesis
  proof (cases "elegir_depto cols")
    case (Inl e)
    with Inr show ?thesis by (simp add: chunk_out_def chunk_join_def imputar_def sin_valor_def)
  next
    case dc: (Inr dc)
    show ?thesis
    proof (cases "''depto_normalizado'' \<in> set cols")
      case True
      then have "dc = ''depto_normalizado''" using dc by (simp add: elegir_depto_def)
      with Inr dc show ?thesis
        by (simp add: chunk_out_def chunk_join_def imputar_identity[OF assms])
    next
      case False
      with Inr dc show ?thesis
        by (simp add: chunk_out_def chunk_join_def imputar_without_depto)
    qed
  qed
qed

lemma chunk_join_src_unique:
  assumes "distinct (map pib_key pib)" "\<not> lacks_key c"
  shows "map src (chunk_join pib c) = rows c"
proof -
  from assms(2) have "\<not> (\<exists>e. procesar_chunk pib estado_inicial c = Inl e)"
    using procesar_chunk_Inl by blast
  then obtain cols dc where "preparar_anio (map lower (columns c)) = Inr cols" "elegir_depto cols = Inr dc"
    by (auto simp: procesar_chunk_def split: sum.splits)
  then show ?thesis by (simp add: chunk_join_def left_join_src_unique[OF assms(1)])
qed

lemmas run_eval = merge_run_def estado_inicial_def procesar_chunk_def preparar_anio_def
  elegir_depto_def left_join_def merge_row_def matches_def con_valor_def imputar_def
  imputar_pib_def promedios_def group_values_def group_key_def mean_def sin_valor_def
  cell_of_def astype_str_def lower_def col_anio_def anio_candidatos_def
  depto_candidatos_def rename_def Let_def


lemma run_Inr:
  assumes "merge_run (Some chunks) (Some pib) = Inr res"
  shows "\<forall>c \<in> set chunks. \<not> lacks_key c"
    and "merged_rows res = concat (map (chunk_out pib) chunks)"
    and "total_rows res = length (concat (map (chunk_join pib) chunks))"
    and "rows_with_pib res = con_valor (concat (map (chunk_join pib) chunks))"
    and "rows_without_pib res = int (total_rows res) - int (rows_with_pib res)"
    and "pib_coverage res =
           (if total_rows res > 0 then real (rows_with_pib res) / real (total_rows res) else 0)"
proof -
  from assms obtain st where st: "procesar_chunks pib estado_inicial chunks = Inr st"
    by (auto simp: merge_run_def split: sum.splits)
  then show "\<forall>c \<in> set chunks. \<not> lacks_key c"
    using procesar_chunks_Inl[of pib estado_inicial chunks] by auto
  note inv = procesar_chunks_Inr[OF st]
  from assms st have res: "res = \<lparr>merged_columns = out_columns st,
        merged_rows = out_rows st, total_rows = total_procesado st,
        rows_with_pib = total_con_pib st,
        rows_without_pib = int (total_procesado st) - int (total_con_pib st),
        pib_coverage = (if total_procesado st > 0
                        then real (total_con_pib st) / real (total_procesado st) else 0)\<rparr>"
    by (auto simp: merge_run_def split: if_splits)
  show "merged_rows res = concat (map (chunk_out pib) chunks)"
    using inv by (simp add: res estado_inicial_def)
  show "total_rows res = length (concat (map (chunk_join pib) chunks))"
    using inv by (simp add: res estado_inicial_def)
  show "rows_with_pib res = con_valor (concat (map (chunk_join pib) chunks))"
    using inv by (simp add: res estado_inicial_def)
  show "rows_without_pib res = int (total_rows res) - int (rows_with_pib res)"
    by (simp add: res)
  show "pib_coverage res =
           (if total_rows res > 0 then real (rows_with_pib res) / real (total_rows res) else 0)"
    by (simp add: res)
qed

lemma concat_chunk_out_unique:
  assumes "distinct (map pib_key pib)"
  shows "concat (map (chunk_out pib) chunks) = concat (map (chunk_join pib) chunks)"
proof -
  have "chunk_out pib = chunk_join pib"
    by (rule ext) (rule chunk_out_unique[OF assms])
  then show ?thesis by simp
qed

lemma src_concat_chunk_join:
  assumes "distinct (map pib_key pib)" "\<forall>c \<in> set chunks. \<not> lacks_key c"
  shows "map src (concat (map (chunk_join pib) chunks)) = concat (map rows chunks)"
  using assms(2)
  by (induction chunks) (simp_all add: chunk_join_src_unique[OF assms(1)])

text \<open>
  Claim C2. When the (year, region) key of the lookup table is unique, a run that completes
  writes exactly one enriched row per input row, in input order: the source cells of the
  output rows are the input rows, so no row is dropped and none is duplicated, and
  \<open>total_rows\<close> is the number of input rows.
\<close>

theorem left_join_one_row_per_input:
  assumes "distinct (map pib_key pib)" and "merge_run (Some chunks) (Some pib) = Inr res"
  shows "map src (merged_rows res) = concat (map rows chunks)
       \<and> length (merged_rows res) = length (concat (map rows chunks))
       \<and> total_rows res = length (concat (map rows chunks))"
proof -
  note r = run_Inr[OF assms(2)]
  have m: "merged_rows res = concat (map (chunk_join pib) chunks)"
    using r(2) concat_chunk_out_unique[OF assms(1)] by simp
  have s: "map src (merged_rows res) = concat (map rows chunks)"
    unfolding m using assms(1) r(1) by (rule src_concat_chunk_join)
  have l: "length (merged_rows res) = length (concat (map rows chunks))"
    using arg_cong[OF s, of length] by simp
  show ?thesis using s l r(3) m by simp
qed

theorem left_join_one_row_per_input_witness:
  "distinct (map pib_key ex_pib)
   \<and> merge_run (Some [ex_chunk]) (Some ex_pib) = Inr ex_res
   \<and> map src (merged_rows ex_res) = concat (map rows [ex_chunk])
   \<and> length (merged_rows ex_res) = 2 \<and> total_rows ex_res = 2"
proof -
  have d: "distinct (map pib_key ex_pib)"
    by (simp add: ex_pib_def pib_key_def)
  have r: "merge_run (Some [ex_chunk]) (Some ex_pib) = Inr ex_res"
    by (simp add: run_eval ex_chunk_def ex_pib_def ex_res_def)
  show ?thesis
    using left_join_one_row_per_input[OF d r] d r by (simp add: ex_chunk_def)
qed

text \<open>
  Claim C10. On the \<open>depto_normalizado\<close> path and with a unique lookup key, the imputation
  pass changes nothing: the rows appended to the output are the rows of the left join, and
  imputing the join of any rows on \<open>depto_normalizado\<close> returns it unchanged, because
  rows of one (year, region) group share their match and so a group with a missing value
  has no value at all.
\<close>

theorem imputation_identity_on_depto_normalizado:
  assumes "distinct (map pib_key pib)"
    and "''depto_normalizado'' \<in> set (map lower (columns chunk))"
    and "procesar_chunk pib st chunk = Inr st'"
  shows "out_rows st' = out_rows st @ chunk_join pib chunk
       \<and> (\<forall>cols. imputar cols (left_join pib cols ''depto_normalizado'' (rows chunk))
                  = left_join pib cols ''depto_normalizado'' (rows chunk))"
  using procesar_chunk_Inr(1)[OF assms(3)] chunk_out_unique[OF assms(1)]
    imputar_identity[OF assms(1)] by simp

theorem imputation_identity_on_depto_normalizado_witness:
  "distinct (map pib_key ex_pib)
   \<and> ''depto_normalizado'' \<in> set (map lower (columns ex_chunk))
   \<and> procesar_chunk ex_pib estado_inicial ex_chunk = Inr ex_estado
   \<and> out_rows ex_estado = chunk_join ex_pib ex_chunk
   \<and> pib_departamental_mm (out_rows ex_estado ! 1) = None"
proof -
  have d: "distinct (map pib_key ex_pib)"
    by (simp add: ex_pib_def pib_key_def)
  have c: "''depto_normalizado'' \<in> set (map lower (columns ex_chunk))"
    by (simp add: ex_chunk_def lower_def)
  have r: "procesar_chunk ex_pib estado_inicial ex_chunk = Inr ex_estado"
    by (simp add: run_eval ex_chunk_def ex_pib_def ex_estado_def ex_res_def)
  have n: "pib_departamental_mm (out_rows ex_estado ! 1) = None"
    by (simp add: ex_estado_def ex_res_def)
  show ?thesis
    using imputation_identity_on_depto_normalizado[OF d c r] d c r n
    by (simp add: estado_inicial_def)
qed

text \<open>
  Claim C1, as stated, fails: with a lookup table in which a key occurs twice, once with a
  value and once without, the second joined row is filled by imputation, so two output rows
  carry a value while \<open>rows_with_pib\<close> is 1.
\<close>

theorem rows_with_pib_misses_imputed_rows:
  "merge_run (Some [ex_chunk]) (Some ex_pib_dup) = Inr ex_res_dup
   \<and> rows_with_pib ex_res_dup = 1
   \<and> con_valor (merged_rows ex_res_dup) = 2"
  by (simp add: run_eval ex_chunk_def ex_pib_dup_def ex_res_dup_def)

text \<open>
  Claim C1, amended. \<open>rows_with_pib\<close> is the number of rows that carry a value right
  after the left join, before imputation; \<open>rows_without_pib\<close> is \<open>total_rows\<close> minus that
  count and \<open>pib_coverage\<close> their quotient (0 when there is no row). When the lookup key
  is unique, that count is also the number of output rows with a value.
\<close>

theorem rows_with_pib_counts_join_matches:
  assumes "merge_run (Some chunks) (Some pib) = Inr res"
  shows "rows_with_pib res = con_valor (concat (map (chunk_join pib) chunks))
       \<and> rows_without_pib res = int (total_rows res) - int (rows_with_pib res)
       \<and> pib_coverage res =
           (if total_rows res > 0 then real (rows_with_pib res) / real (total_rows res) else 0)
       \<and> (distinct (map pib_key pib) \<longrightarrow> rows_with_pib res = con_valor (merged_rows res))"
  using run_Inr[OF assms] concat_chunk_out_unique[of pib chunks] by simp

theorem rows_with_pib_counts_join_matches_witness:
  "merge_run (Some [ex_chunk]) (Some ex_pib) = Inr ex_res
   \<and> distinct (map pib_key ex_pib)
   \<and> rows_with_pib ex_res = con_valor (concat (map (chunk_join ex_pib) [ex_chunk]))
   \<and> rows_with_pib ex_res = con_valor (merged_rows ex_res)
   \<and> rows_without_pib ex_res = 1 \<and> pib_coverage ex_res = 1 / 2"
proof -
  have d: "distinct (map pib_key ex_pib)"
    by (simp add: ex_pib_def pib_key_def)
  have r: "merge_run (Some [ex_chunk]) (Some ex_pib) = Inr ex_res"
    by (simp add: run_eval ex_chunk_def ex_pib_def ex_res_def)
  have v: "total_rows ex_res = 2" "rows_with_pib ex_res = 1"
    by (simp_all add: ex_res_def)
  show ?thesis
    using rows_with_pib_counts_join_matches[OF r] d r v by simp
qed





subsection \<open>Lookup normalizer\<close>

lemma agregar_keys: "map grp_key (agregar rs) = sort (remdups (map grp_key rs))"
  by (simp add: agregar_def grp_key_def comp_def)

lemma agregar_row:
  assumes "g \<in> set (agregar rs)"
  shows "grp_valor_api_mm g = sum_list (map grp_valor_api_mm (grupo rs (grp_key g)))"
    and "grp_departamento g = primero_no_vacio (map grp_departamento (grupo rs (grp_key g)))"
  using assms by (auto simp: agregar_def grp_key_def)

lemma primero_no_vacio_spec:
  "primero_no_vacio xs = (case filter (\<lambda>x. strip x \<noteq> '''') xs of [] \<Rightarrow> '''' | x # _ \<Rightarrow> x)"
  by (induction xs) auto

lemma transform_api_run_Inr:
  "transform_api_run df = Inr out \<Longrightarrow> out = agregar (sobrevivientes df)"
  by (auto simp: transform_api_run_def sobrevivientes_def Let_def split: if_splits)

text \<open>
  Claim C7. When the raw lookup data survives cleaning, the output has exactly one row per
  (year, region code) key of the surviving rows (the keys of the output are distinct,
  sorted, and are the keys of the surviving rows); in the row of a key, the value is the sum
  of the values of the surviving rows with that key, and the name is the first name in
  source row order that is not blank, or the empty text when all are blank.
\<close>

theorem aggregated_lookup_unique_key_sum_first_name:
  assumes "transform_api_run df = Inr out"
  shows "distinct (map grp_key out)
       \<and> sorted (map grp_key out)
       \<and> set (map grp_key out) = set (map grp_key (sobrevivientes df))
       \<and> (\<forall>g \<in> set out.
             grp_valor_api_mm g
               = sum_list (map grp_valor_api_mm (grupo (sobrevivientes df) (grp_key g)))
           \<and> grp_departamento g
               = (case filter (\<lambda>x. strip x \<noteq> '''')
                         (map grp_departamento (grupo (sobrevivientes df) (grp_key g))) of
                    [] \<Rightarrow> ''''
                  | x # xs \<Rightarrow> x))"
proof -
  have out: "out = agregar (sobrevivientes df)"
    using assms by (rule transform_api_run_Inr)
  have keys: "map grp_key out = sort (remdups (map grp_key (sobrevivientes df)))"
    unfolding out by (rule agregar_keys)
  have d: "distinct (map grp_key out)" unfolding keys by simp
  have s: "sorted (map grp_key out)" unfolding keys by simp
  have k: "set (map grp_key out) = set (map grp_key (sobrevivientes df))"
    unfolding keys by simp
  have r: "\<forall>g \<in> set out.
             grp_valor_api_mm g
               = sum_list (map grp_valor_api_mm (grupo (sobrevivientes df) (grp_key g)))
           \<and> grp_departamento g
               = (case filter (\<lambda>x. strip x \<noteq> '''')
                         (map grp_departamento (grupo (sobrevivientes df) (grp_key g))) of
                    [] \<Rightarrow> ''''
                  | x # xs \<Rightarrow> x)"
    unfolding out using agregar_row primero_no_vacio_spec by metis
  from d s k r show ?thesis by blast
qed

theorem aggregated_lookup_unique_key_sum_first_name_witness:
  "transform_api_run ex_api = Inr ex_grp
   \<and> distinct (map grp_key ex_grp)
   \<and> set (map grp_key ex_grp) = {(2018, 11), (2019, 5)}
   \<and> grp_valor_api_mm (ex_grp ! 1) = 100 + 20
   \<and> grp_departamento (ex_grp ! 1) = ''Antioquia''"
proof -
  have r: "transform_api_run ex_api = Inr ex_grp"
    by (simp add: transform_api_run_def ex_api_def ex_grp_def dropna_claves_def limpiar_def
          List.map_filter_def agregar_def grp_key_def grupo_def strip_def py_isspace_def Let_def)
  have v: "set (map grp_key ex_grp) = {(2018, 11), (2019, 5)}"
      "grp_valor_api_mm (ex_grp ! 1) = 100 + 20"
      "grp_departamento (ex_grp ! 1) = ''Antioquia''"
    by (auto simp: ex_grp_def grp_key_def)
  show ?thesis
    using aggregated_lookup_unique_key_sum_first_name[OF r] r v by simp
qed


subsection \<open>Region-code normalization\<close>

lemma bitlen_0: "bitlen 0 = 0" by (simp add: bitlen.simps)

lemma bitlen_pos: "n > 0 \<Longrightarrow> bitlen n = Suc (bitlen (n div 2))"
  by (subst bitlen.simps) simp

lemma bitlen_upper: "n < 2 ^ bitlen n"
proof (induction n rule: bitlen.induct)
  case (1 n)
  show ?case
  proof (cases "n = 0")
    case True
    then show ?thesis by (simp add: bitlen_0)
  next
    case False
    then have "n div 2 < 2 ^ bitlen (n div 2)" using 1 by simp
    then have "n < 2 * 2 ^ bitlen (n div 2)" by arith
    with False show ?thesis by (simp add: bitlen_pos)
  qed
qed

lemma bitlen_lower: "n > 0 \<Longrightarrow> 2 ^ (bitlen n - 1) \<le> n"
proof (induction n rule: bitlen.induct)
  case (1 n)
  show ?case
  proof (cases "n div 2 = 0")
    case True
    with 1(2) have "n = 1" by arith
    then show ?thesis by (simp add: bitlen.simps)
  next
    case False
    then have ih: "2 ^ (bitlen (n div 2) - 1) \<le> n div 2" using 1 by simp
    from False have "bitlen (n div 2) > 0" by (simp add: bitlen_pos)
    then have "(2::nat) ^ bitlen (n div 2) = 2 * 2 ^ (bitlen (n div 2) - 1)"
      by (cases "bitlen (n div 2)") simp_all
    with ih have "(2::nat) ^ bitlen (n div 2) \<le> n" by arith
    with 1(2) show ?thesis by (simp add: bitlen_pos)
  qed
qed

lemma bitlen_double: "n > 0 \<Longrightarrow> bitlen (2 * n) = Suc (bitlen n)"
  by (subst bitlen.simps) simp

lemma bitlen_mult_pow2: "n > 0 \<Longrightarrow> bitlen (n * 2 ^ e) = bitlen n + e"
proof (induction e)
  case 0
  show ?case by simp
next
  case (Suc e)
  have "bitlen (n * 2 ^ Suc e) = bitlen (2 * (n * 2 ^ e))" by (simp add: mult.commute mult.left_commute)
  also have "\<dots> = Suc (bitlen (n * 2 ^ e))" using Suc.prems by (intro bitlen_double) simp
  finally show ?case using Suc by simp
qed

lemma bitlen_le: "n < 2 ^ k \<Longrightarrow> bitlen n \<le> k"
proof (induction k arbitrary: n)
  case 0
  then show ?case by (simp add: bitlen_0)
next
  case (Suc k)
  show ?case
  proof (cases "n = 0")
    case True
    then show ?thesis by (simp add: bitlen_0)
  next
    case False
    from Suc.prems have "n div 2 < 2 ^ k" by simp
    then have "bitlen (n div 2) \<le> k" by (rule Suc.IH)
    with False show ?thesis by (simp add: bitlen_pos)
  qed
qed

lemma rne_div_le: "b > 0 \<Longrightarrow> a < b * k \<Longrightarrow> rne_div a b \<le> k"
proof -
  assume b: "b > 0" and a: "a < b * k"
  then have "a div b < k" by (simp add: less_mult_imp_div_less mult.commute)
  then show ?thesis by (auto simp: rne_div_def Let_def)
qed

lemma rne_div_exact: "b > 0 \<Longrightarrow> b dvd a \<Longrightarrow> rne_div a b = a div b"
  by (auto simp: rne_div_def Let_def)

lemma floor_log2_upper:
  assumes "num > 0" "den > 0"
  shows "real num / real den < 2 powi (floor_log2 num den + 1)"
proof -
  let ?k = "int (bitlen num) - int (bitlen den)"
  have bd: "bitlen den > 0" using assms(2) by (simp add: bitlen_pos)
  have n: "real num < 2 powi int (bitlen num)"
  proof -
    have "real num < real (2 ^ bitlen num)"
      using bitlen_upper[of num] of_nat_less_iff by blast
    then show ?thesis by (simp add: power_int_def)
  qed
  have "real (2 ^ (bitlen den - 1)) \<le> real den"
    using bitlen_lower[OF assms(2)] of_nat_le_iff by blast
  then have d: "2 powi (int (bitlen den) - 1) \<le> real den"
    using bd by (simp add: power_int_def nat_diff_distrib')
  have dpos: "(0::real) < 2 powi (int (bitlen den) - 1)" by simp
  have "real num / real den \<le> real num / 2 powi (int (bitlen den) - 1)"
    using d dpos by (simp add: frac_le)
  also have "\<dots> < 2 powi int (bitlen num) / 2 powi (int (bitlen den) - 1)"
    using n dpos by (simp add: divide_strict_right_mono)
  also have "\<dots> = 2 powi (?k + 1)"
  proof -
    have "(2::real) powi int (bitlen num) / 2 powi (int (bitlen den) - 1)
            = 2 powi (int (bitlen num) - (int (bitlen den) - 1))"
      by (subst power_int_diff) simp_all
    also have "int (bitlen num) - (int (bitlen den) - 1) = ?k + 1" by simp
    finally show ?thesis .
  qed
  finally have k1: "real num / real den < 2 powi (?k + 1)" .
  show ?thesis
  proof (cases "if ?k \<ge> 0 then den * 2 ^ nat ?k \<le> num else den \<le> num * 2 ^ nat (- ?k)")
    case True
    then have "floor_log2 num den = ?k" by (simp add: floor_log2_def Let_def)
    with k1 show ?thesis by simp
  next
    case False
    then have fl: "floor_log2 num den = ?k - 1" by (simp add: floor_log2_def Let_def)
    have "real num / real den < 2 powi ?k"
    proof (cases "?k \<ge> 0")
      case True
      with False have "num < den * 2 ^ nat ?k" by simp
      then have "real num < real (den * 2 ^ nat ?k)"
        using of_nat_less_iff by blast
      then have "real num < real den * 2 ^ nat ?k" by simp
      then have "real num / real den < 2 ^ nat ?k"
        using assms(2) by (simp add: field_simps)
      with True show ?thesis by (simp add: power_int_def)
    next
      case k: False
      with False have "num * 2 ^ nat (- ?k) < den" by simp
      then have "real (num * 2 ^ nat (- ?k)) < real den"
        using of_nat_less_iff by blast
      then have "real num * 2 ^ nat (- ?k) < real den" by simp
      then have "real num / real den < 1 / 2 ^ nat (- ?k)"
        using assms(2) by (simp add: field_simps)
      with k show ?thesis by (simp add: power_int_def field_simps)
    qed
    with fl show ?thesis by simp
  qed
qed

lemma round_double_bounds:
  assumes "den > 0" "round_double num den = Some (m, e)"
  shows "m \<le> 2 ^ 53" and "e \<ge> 0 \<longrightarrow> m * 2 ^ nat e < 2 ^ 1024"
proof -
  show "e \<ge> 0 \<longrightarrow> m * 2 ^ nat e < 2 ^ 1024"
    using assms(2) by (auto simp: round_double_def Let_def split: if_splits)
  show "m \<le> 2 ^ 53"
  proof (cases "num = 0")
    case True
    with assms(2) show ?thesis by (simp add: round_double_def)
  next
    case False
    let ?L = "floor_log2 num den"
    have e: "e = max (?L - 52) (- 1074)"
      using assms(2) False by (auto simp: round_double_def Let_def split: if_splits)
    have m: "m = (if e \<ge> 0 then rne_div num (den * 2 ^ nat e)
                  else rne_div (num * 2 ^ nat (- e)) den)"
      using assms(2) False by (auto simp: round_double_def Let_def split: if_splits)
    have "real num / real den < 2 powi (?L + 1)"
      using False assms(1) by (intro floor_log2_upper) simp_all
    also have "\<dots> \<le> 2 powi (e + 53)"
      using e by (intro power_int_increasing) simp_all
    finally have x: "real num / real den < 2 powi (e + 53)" .
    show ?thesis
    proof (cases "e \<ge> 0")
      case True
      then have "(2::real) powi (e + 53) = 2 ^ (nat e + 53)"
        by (simp add: power_int_def nat_add_distrib)
      with x have "real num < real den * 2 ^ (nat e + 53)"
        using assms(1) by (simp add: field_simps)
      then have "real num < real (den * 2 ^ (nat e + 53))" by simp
      then have "num < den * 2 ^ (nat e + 53)" using of_nat_less_iff by blast
      then have "num < (den * 2 ^ nat e) * 2 ^ 53" by (simp add: power_add mult.assoc)
      then have "rne_div num (den * 2 ^ nat e) \<le> 2 ^ 53"
        using assms(1) by (intro rne_div_le) simp_all
      with m True show ?thesis by simp
    next
      case neg: False
      have "(2::real) powi (e + 53) = 2 powi e * 2 ^ 53"
        by (simp add: power_int_add)
      moreover from neg have "(2::real) powi e = 1 / 2 ^ nat (- e)"
        by (simp add: power_int_def field_simps)
      ultimately have "real num / real den < 2 ^ 53 / 2 ^ nat (- e)"
        using x by simp
      then have "real num * 2 ^ nat (- e) < real den * 2 ^ 53"
        using assms(1) by (simp add: field_simps)
      then have "real (num * 2 ^ nat (- e)) < real (den * 2 ^ 53)" by simp
      then have "num * 2 ^ nat (- e) < den * 2 ^ 53" using of_nat_less_iff by blast
      then have "rne_div (num * 2 ^ nat (- e)) den \<le> 2 ^ 53"
        using assms(1) by (intro rne_div_le) simp_all
      with m neg show ?thesis by simp
    qed
  qed
qed

lemma trunc_representable:
  assumes "m \<le> 2 ^ 53" "e \<ge> 0 \<longrightarrow> m * 2 ^ nat e < 2 ^ 1024"
  shows "representable (trunc_double m e)"
proof (cases "e \<ge> 0")
  case True
  then have t: "trunc_double m e = m * 2 ^ nat e" by (simp add: trunc_double_def)
  show ?thesis
  proof (cases "m = 2 ^ 53")
    case m: True
    have "m * 2 ^ nat e = 2 ^ 52 * 2 ^ (nat e + 1)" by (simp add: m)
    moreover have "(2::nat) ^ 52 < 2 ^ 53" by simp
    ultimately show ?thesis using assms(2) True unfolding representable_def t by blast
  next
    case False
    with assms(1) have "m < 2 ^ 53" by simp
    then show ?thesis using assms(2) True unfolding representable_def t by blast
  qed
next
  case False
  then have t: "trunc_double m e = m div 2 ^ nat (- e)" by (simp add: trunc_double_def)
  have "m div 2 ^ nat (- e) \<le> m div 2 ^ 1"
    using False by (intro div_le_mono2 power_increasing) simp_all
  also have "\<dots> \<le> 2 ^ 53 div 2" using assms(1) by (simp add: div_le_mono)
  also have "\<dots> < (2::nat) ^ 53" by simp
  finally have b: "m div 2 ^ nat (- e) < 2 ^ 53" .
  have "(2::nat) ^ 53 < 2 ^ 1024" by simp
  with b have "m div 2 ^ nat (- e) < 2 ^ 1024" by (rule less_trans)
  moreover have "m div 2 ^ nat (- e) = (m div 2 ^ nat (- e)) * 2 ^ 0" by simp
  ultimately show ?thesis using b unfolding representable_def t by blast
qed

lemma rne_div_one: "rne_div a (Suc 0) = a"
  by (simp add: rne_div_def)

lemma round_double_representable:
  assumes "representable r"
  shows "\<exists>m e. round_double r 1 = Some (m, e) \<and> trunc_double m e = r"
proof (cases "r = 0")
  case True
  then show ?thesis by (simp add: round_double_def trunc_double_def)
next
  case False
  from assms obtain m0 e0 where r: "r = m0 * 2 ^ e0" and m0: "m0 < 2 ^ 53" and big: "r < 2 ^ 1024"
    by (auto simp: representable_def)
  from False r have m0pos: "m0 > 0" by (cases m0) simp_all
  have bl: "bitlen r = bitlen m0 + e0" unfolding r using m0pos by (rule bitlen_mult_pow2)
  have blm: "bitlen m0 \<le> 53" using m0 by (rule bitlen_le)
  have blpos: "bitlen r > 0" using False by (simp add: bitlen_pos)
  have b1: "bitlen (Suc 0) = Suc 0" by (simp add: bitlen.simps)
  have low: "2 ^ (bitlen r - 1) \<le> r" using False by (intro bitlen_lower) simp
  have L: "floor_log2 r 1 = int (bitlen r) - 1"
    using low blpos by (simp add: floor_log2_def Let_def b1 nat_diff_distrib')
  define E where "E = int (bitlen r) - 53"
  have Emax: "max (floor_log2 r 1 - 52) (- 1074) = E"
    unfolding L E_def by simp
  show ?thesis
  proof (cases "E \<ge> 0")
    case True
    then have nE: "nat E = bitlen r - 53" "bitlen r \<ge> 53" by (simp_all add: E_def)
    then have "nat E \<le> e0" using bl blm by simp
    then have "(2::nat) ^ nat E dvd 2 ^ e0" by (rule le_imp_power_dvd)
    then have dvd: "2 ^ nat E dvd r" unfolding r by (rule dvd_mult)
    then have m: "rne_div r (1 * 2 ^ nat E) = r div 2 ^ nat E"
      by (simp add: rne_div_exact)
    have rback: "r div 2 ^ nat E * 2 ^ nat E = r" using dvd by simp
    have "round_double r 1 = Some (r div 2 ^ nat E, E)"
      using False True Emax m rback big by (simp add: round_double_def Let_def)
    moreover have "trunc_double (r div 2 ^ nat E) E = r"
      using True rback by (simp add: trunc_double_def)
    ultimately show ?thesis by blast
  next
    case neg: False
    have "round_double r 1 = Some (r * 2 ^ nat (- E), E)"
      using False neg Emax by (simp add: round_double_def Let_def rne_div_one)
    moreover have "trunc_double (r * 2 ^ nat (- E)) E = r"
      using neg by (simp add: trunc_double_def)
    ultimately show ?thesis by blast
  qed
qed

lemma is_digit_iff:
  "is_digit c \<longleftrightarrow> c \<in> set ''0123456789''"
proof
  assume "is_digit c"
  then have "48 \<le> (of_char c :: nat)" "(of_char c :: nat) \<le> 57"
    by (simp_all add: is_digit_def Let_def)
  then have "(of_char c :: nat) = 48 \<or> (of_char c :: nat) = 49 \<or> (of_char c :: nat) = 50
      \<or> (of_char c :: nat) = 51 \<or> (of_char c :: nat) = 52 \<or> (of_char c :: nat) = 53
      \<or> (of_char c :: nat) = 54 \<or> (of_char c :: nat) = 55 \<or> (of_char c :: nat) = 56
      \<or> (of_char c :: nat) = 57" by arith
  then have "(of_char c :: nat) \<in> of_char ` set ''0123456789''" by auto
  then obtain d where "d \<in> set ''0123456789''" "(of_char c :: nat) = of_char d" by blast
  then show "c \<in> set ''0123456789''" by simp
next
  assume "c \<in> set ''0123456789''"
  then show "is_digit c" by (auto simp: is_digit_def)
qed

lemma nth_digit_char: "d < 10 \<Longrightarrow> is_digit (''0123456789'' ! d) \<and> digit_val (''0123456789'' ! d) = d"
proof -
  assume "d < 10"
  then have "d = 0 \<or> d = 1 \<or> d = 2 \<or> d = 3 \<or> d = 4 \<or> d = 5 \<or> d = 6 \<or> d = 7
      \<or> d = 8 \<or> d = 9" by arith
  then show ?thesis by (auto simp: is_digit_def digit_val_def)
qed

lemma digits_nonempty: "digits n \<noteq> []"
  by (subst digits.simps) simp

lemma digits_all_digit: "c \<in> set (digits n) \<Longrightarrow> is_digit c"
proof (induction n arbitrary: c rule: digits.induct)
  case (1 n)
  show ?case
  proof (cases "n < 10")
    case True
    with 1(2) show ?thesis by (subst (asm) digits.simps) (simp add: nth_digit_char)
  next
    case False
    have "n mod 10 < 10" by simp
    then have "is_digit (''0123456789'' ! (n mod 10))" using nth_digit_char by blast
    moreover from 1(2) False have "c \<in> set (digits (n div 10)) \<or> c = ''0123456789'' ! (n mod 10)"
      by (subst (asm) digits.simps) auto
    ultimately show ?thesis using 1(1)[OF False] by blast
  qed
qed

lemma digits_val_snoc: "digits_val (xs @ [c]) = 10 * digits_val xs + digit_val c"
  by (simp add: digits_val_def)

lemma digits_val_digits: "digits_val (digits n) = n"
proof (induction n rule: digits.induct)
  case (1 n)
  show ?case
  proof (cases "n < 10")
    case True
    then have "digits n = [''0123456789'' ! n]" by (subst digits.simps) simp
    with True show ?thesis using nth_digit_char[of n] by (simp add: digits_val_def)
  next
    case False
    then have d: "digits n = digits (n div 10) @ [''0123456789'' ! (n mod 10)]"
      by (subst digits.simps) simp
    have "digit_val (''0123456789'' ! (n mod 10)) = n mod 10"
      using nth_digit_char[of "n mod 10"] by simp
    with 1[OF False] show ?thesis unfolding d digits_val_snoc by simp
  qed
qed

lemma digits_val_zero_cons: "digits_val (CHR ''0'' # ds) = digits_val ds"
  by (simp add: digits_val_def digit_val_def)

lemma length_digits_le: "n < 2 ^ k \<Longrightarrow> length (digits n) \<le> Suc k"
proof (induction k arbitrary: n)
  case 0
  then have "n < 10" by simp
  then show ?case by (subst digits.simps) simp
next
  case (Suc k)
  show ?case
  proof (cases "n < 10")
    case True
    then show ?thesis by (subst digits.simps) simp
  next
    case False
    from Suc.prems have "n div 10 < 2 ^ k" by (simp add: less_mult_imp_div_less)
    then have "length (digits (n div 10)) \<le> Suc k" by (rule Suc.IH)
    with False show ?thesis by (subst digits.simps) simp
  qed
qed



lemma digit_plain:
  assumes "is_digit c"
  shows "c \<noteq> CHR ''-''" "c \<noteq> CHR ''+''" "c \<noteq> CHR ''_''" "c \<noteq> CHR 0x00" "c \<noteq> CHR ''.''"
    "\<not> py_isspace c" "lower_char c \<noteq> CHR ''i''" "lower_char c \<noteq> CHR ''n''"
  using assms by (auto simp: is_digit_iff py_isspace_def)

lemma minus_plain: "\<not> py_isspace (CHR ''-'')" "\<not> is_digit (CHR ''-'')"
  by (simp_all add: py_isspace_def is_digit_def)

lemma strip_id:
  assumes "\<forall>c \<in> set s. \<not> py_isspace c"
  shows "strip s = s"
proof (cases s)
  case Nil
  then show ?thesis by (simp add: strip_def)
next
  case (Cons c cs)
  with assms have 1: "dropWhile py_isspace s = s" by simp
  from Cons have ne: "rev s \<noteq> []" by simp
  then have "hd (rev s) \<in> set s" by (metis hd_in_set set_rev)
  with assms have "\<not> py_isspace (hd (rev s))" by blast
  then have 2: "dropWhile py_isspace (rev s) = rev s"
    using ne by (cases "rev s") simp_all
  show ?thesis by (simp add: strip_def 1 2)
qed

lemma sin_guiones_plain:
  "CHR 0x00 \<notin> set s \<Longrightarrow> CHR ''_'' \<notin> set s \<Longrightarrow> sin_guiones s = Some s"
  by (simp add: sin_guiones_def)

lemma takeWhile_all: "\<forall>c \<in> set ds. P c \<Longrightarrow> takeWhile P ds = ds"
  by (simp add: takeWhile_eq_all_conv)

lemma dropWhile_all: "\<forall>c \<in> set ds. P c \<Longrightarrow> dropWhile P ds = []"
  by simp

lemma parse_decimal_digits:
  assumes ne: "ds \<noteq> []" and dig: "\<forall>c \<in> set ds. is_digit c" and len: "length ds \<le> max_digits"
  shows "parse_decimal ds = Some (LDec False (digits_val ds) 0)"
    and "parse_decimal (CHR ''-'' # ds) = Some (LDec True (digits_val ds) 0)"
proof -
  from ne obtain d r where ds: "ds = d # r" by (cases ds) auto
  with dig have d: "is_digit d" by simp
  have s1: "split_sign ds = (False, ds)"
    using digit_plain(1,2)[OF d] by (simp add: split_sign_def ds)
  have s2: "split_sign (CHR ''-'' # ds) = (True, ds)"
    by (simp add: split_sign_def)
  have tw: "takeWhile is_digit ds = ds" using dig by (rule takeWhile_all)
  have dw: "dropWhile is_digit ds = []" using dig by (rule dropWhile_all)
  have "length (dropWhile (\<lambda>c. c = CHR ''0'') ds) \<le> length ds"
    by (rule length_dropWhile_le)
  with len have nd: "\<not> length (dropWhile (\<lambda>c. c = CHR ''0'') ds) > max_digits" by simp
  have pe: "parse_exponent [] = Some (0, [])" by (simp add: parse_exponent_def)
  show "parse_decimal ds = Some (LDec False (digits_val ds) 0)"
    using ne nd by (simp add: parse_decimal_def s1 tw dw pe Let_def max_digits_def)
  show "parse_decimal (CHR ''-'' # ds) = Some (LDec True (digits_val ds) 0)"
    using ne nd by (simp add: parse_decimal_def s2 tw dw pe Let_def max_digits_def)
qed

lemma parse_inf_or_nan_digits:
  assumes ne: "ds \<noteq> []" and dig: "\<forall>c \<in> set ds. is_digit c"
  shows "parse_inf_or_nan ds = None" and "parse_inf_or_nan (CHR ''-'' # ds) = None"
proof -
  from ne obtain d r where ds: "ds = d # r" by (cases ds) auto
  with dig have d: "is_digit d" by simp
  have s1: "split_sign ds = (False, ds)"
    using digit_plain(1,2)[OF d] by (simp add: split_sign_def ds)
  have s2: "split_sign (CHR ''-'' # ds) = (True, ds)"
    by (simp add: split_sign_def)
  have l: "lower ds = lower_char d # lower r" by (simp add: lower_def ds)
  have no: "lower ds \<noteq> ''inf''" "lower ds \<noteq> ''infinity''" "lower ds \<noteq> ''nan''"
    using digit_plain(7,8)[OF d] unfolding l by simp_all
  show "parse_inf_or_nan ds = None" using no by (simp add: parse_inf_or_nan_def s1 Let_def)
  show "parse_inf_or_nan (CHR ''-'' # ds) = None"
    using no by (simp add: parse_inf_or_nan_def s2 Let_def)
qed

lemma py_float_digit_string:
  assumes ne: "ds \<noteq> []" and dig: "\<forall>c \<in> set ds. is_digit c" and len: "length ds \<le> max_digits"
    and rep: "representable (digits_val ds)"
  shows "\<exists>m e. py_float ds = Some (DFin False m e) \<and> trunc_double m e = digits_val ds"
    and "\<exists>m e. py_float (CHR ''-'' # ds) = Some (DFin True m e) \<and> trunc_double m e = digits_val ds"
proof -
  from round_double_representable[OF rep] obtain m e
    where r: "round_double (digits_val ds) 1 = Some (m, e)" and t: "trunc_double m e = digits_val ds"
    by blast
  have nz: "CHR 0x00 \<notin> set ds" "CHR ''_'' \<notin> set ds"
    using dig digit_plain(3,4) by blast+
  have g1: "sin_guiones ds = Some ds" using nz by (rule sin_guiones_plain)
  have g2: "sin_guiones (CHR ''-'' # ds) = Some (CHR ''-'' # ds)"
    using nz by (intro sin_guiones_plain) simp_all
  have "py_float ds = Some (DFin False m e)"
    using r by (simp add: py_float_def parse_float_def g1
        parse_inf_or_nan_digits(1)[OF ne dig] parse_decimal_digits(1)[OF ne dig len])
  with t show "\<exists>m e. py_float ds = Some (DFin False m e) \<and> trunc_double m e = digits_val ds"
    by blast
  have "py_float (CHR ''-'' # ds) = Some (DFin True m e)"
    using r by (simp add: py_float_def parse_float_def g2
        parse_inf_or_nan_digits(2)[OF ne dig] parse_decimal_digits(2)[OF ne dig len])
  with t show "\<exists>m e. py_float (CHR ''-'' # ds) = Some (DFin True m e) \<and> trunc_double m e = digits_val ds"
    by blast
qed

lemma format_02d_fmt_digits:
  "format_02d n = (if n < 0 then CHR ''-'' # fmt_digits n else fmt_digits n)"
  by (simp add: format_02d_def fmt_digits_def Let_def)

lemma fmt_digits_props:
  shows "fmt_digits n \<noteq> []" and "\<forall>c \<in> set (fmt_digits n). is_digit c"
    and "digits_val (fmt_digits n) = nat \<bar>n\<bar>"
proof -
  have z: "is_digit (CHR ''0'')" by (simp add: is_digit_def)
  show "fmt_digits n \<noteq> []" by (simp add: fmt_digits_def digits_nonempty)
  show "\<forall>c \<in> set (fmt_digits n). is_digit c"
    using digits_all_digit z by (auto simp: fmt_digits_def)
  show "digits_val (fmt_digits n) = nat \<bar>n\<bar>"
    by (auto simp: fmt_digits_def digits_val_digits digits_val_zero_cons)
qed

lemma fmt_digits_length:
  assumes "nat \<bar>n\<bar> < 2 ^ 1024"
  shows "length (fmt_digits n) \<le> max_digits"
proof -
  have "length (digits (nat \<bar>n\<bar>)) \<le> Suc 1024" using assms by (rule length_digits_le)
  moreover have "length (fmt_digits n) \<le> Suc (length (digits (nat \<bar>n\<bar>)))"
    by (auto simp: fmt_digits_def)
  ultimately show ?thesis by (simp add: max_digits_def)
qed

lemma normalizar_formatted:
  assumes "representable (nat \<bar>n\<bar>)"
  shows "normalizar_departamento (Some (format_02d n)) = Inr (Some (format_02d n))"
proof -
  note p = fmt_digits_props[of n]
  have len: "length (fmt_digits n) \<le> max_digits"
    using assms by (intro fmt_digits_length) (simp add: representable_def)
  have rep: "representable (digits_val (fmt_digits n))" using assms p(3) by simp
  note f = py_float_digit_string[OF p(1) p(2) len rep]
  have nosp: "\<forall>c \<in> set (format_02d n). \<not> py_isspace c"
    using p(2) digit_plain(6) minus_plain(1) by (auto simp: format_02d_fmt_digits)
  have st: "strip (format_02d n) = format_02d n" using nosp by (rule strip_id)
  have ne: "format_02d n \<noteq> ''''" using p(1) by (simp add: format_02d_fmt_digits)
  show ?thesis
  proof (cases "n < 0")
    case True
    from f(2) obtain m e where "py_float (CHR ''-'' # fmt_digits n) = Some (DFin True m e)"
      and "trunc_double m e = digits_val (fmt_digits n)" by blast
    with True p(3) have "py_float (format_02d n) = Some (DFin True m e)" "int (trunc_double m e) = - n"
      by (simp_all add: format_02d_fmt_digits)
    then show ?thesis using st ne by (simp add: normalizar_departamento_def py_int_def Let_def)
  next
    case False
    from f(1) obtain m e where "py_float (fmt_digits n) = Some (DFin False m e)"
      and "trunc_double m e = digits_val (fmt_digits n)" by blast
    with False p(3) have "py_float (format_02d n) = Some (DFin False m e)" "int (trunc_double m e) = n"
      by (simp_all add: format_02d_fmt_digits)
    then show ?thesis using st ne by (simp add: normalizar_departamento_def py_int_def Let_def)
  qed
qed

lemma py_float_finite_representable:
  assumes "py_float s = Some (DFin neg m e)"
  shows "representable (trunc_double m e)"
proof -
  from assms obtain d x where "parse_float s = Some (LDec neg d x)"
    and r: "(if x \<ge> 0 then round_double (d * 10 ^ nat x) 1 else round_double d (10 ^ nat (- x))) = Some (m, e)"
    by (auto simp: py_float_def split: option.splits literal.splits prod.splits)
  have "\<exists>num den. den > 0 \<and> round_double num den = Some (m, e)"
  proof (cases "x \<ge> 0")
    case True
    with r have "round_double (d * 10 ^ nat x) 1 = Some (m, e)" by simp
    then show ?thesis using zero_less_one by blast
  next
    case False
    with r have "round_double d (10 ^ nat (- x)) = Some (m, e)" by simp
    moreover have "(0::nat) < 10 ^ nat (- x)" by simp
    ultimately show ?thesis by blast
  qed
  then obtain num den where "den > 0" "round_double num den = Some (m, e)" by blast
  then show ?thesis using round_double_bounds trunc_representable by blast
qed

lemma normalizar_Some:
  assumes "normalizar_departamento c = Inr (Some t)"
  shows "\<exists>codigo. t = format_02d codigo \<and> representable (nat \<bar>codigo\<bar>)"
proof -
  from assms obtain s x codigo where "c = Some s" "py_float (strip s) = Some x"
    and i: "py_int x = Inr (Some codigo)" and t: "t = format_02d codigo"
    by (auto simp: normalizar_departamento_def Let_def
             split: option.splits if_splits sum.splits)
  from i obtain neg m e where x: "x = DFin neg m e"
    and c: "codigo = (if neg then - int (trunc_double m e) else int (trunc_double m e))"
    by (auto simp: py_int_def Let_def split: double.splits)
  have "representable (trunc_double m e)"
    using \<open>py_float (strip s) = Some x\<close> x py_float_finite_representable by blast
  moreover from c have "nat \<bar>codigo\<bar> = trunc_double m e" by auto
  ultimately show ?thesis using t by auto
qed

lemma normalizar_idem:
  assumes "normalizar_departamento c = Inr r"
  shows "normalizar_departamento r = Inr r"
proof (cases r)
  case None
  then show ?thesis by (simp add: normalizar_departamento_def)
next
  case (Some t)
  with assms obtain codigo where "t = format_02d codigo" "representable (nat \<bar>codigo\<bar>)"
    using normalizar_Some by blast
  with Some show ?thesis using normalizar_formatted by simp
qed


lemmas norm_eval = normalizar_departamento_def strip_def py_isspace_def py_float_def parse_float_def
  sin_guiones_def parse_inf_or_nan_def parse_decimal_def parse_exponent_def split_sign_def
  is_digit_def digit_val_def digits_val_def lower_def max_digits_def round_double_def
  floor_log2_def rne_div_def py_int_def trunc_double_def format_02d_def Let_def
  bitlen.simps digits.simps

text \<open>
  Claim C3. Region-code normalization is idempotent: whenever it returns a result (a
  string or null), normalizing that result returns it unchanged. It maps \<open>5\<close> to \<open>05\<close>,
  \<open>05\<close> to \<open>05\<close> and the empty string to null. (An argument that parses to an infinity
  raises \<open>OverflowError\<close> and has no result.)
\<close>

theorem normalizar_departamento_idempotent:
  "(normalizar_departamento c = Inr r \<longrightarrow> normalizar_departamento r = Inr r)
   \<and> normalizar_departamento (Some ''5'') = Inr (Some ''05'')
   \<and> normalizar_departamento (Some ''05'') = Inr (Some ''05'')
   \<and> normalizar_departamento (Some '''') = Inr None"
proof -
  have a: "normalizar_departamento (Some ''5'') = Inr (Some ''05'')"
    by (simp add: norm_eval)
  have b: "normalizar_departamento (Some ''05'') = Inr (Some ''05'')"
    by (simp add: norm_eval)
  have c: "normalizar_departamento (Some '''') = Inr None"
    by (simp add: norm_eval)
  show ?thesis using normalizar_idem a b c by blast
qed

theorem normalizar_departamento_idempotent_witness:
  "normalizar_departamento (Some '' 7.9 '') = Inr (Some ''07'')
   \<and> normalizar_departamento (Some ''07'') = Inr (Some ''07'')"
proof -
  have a: "normalizar_departamento (Some '' 7.9 '') = Inr (Some ''07'')"
    by (simp add: norm_eval)
  show ?thesis
    using normalizar_departamento_idempotent[of "Some '' 7.9 ''" "Some ''07''"] a by simp
qed





subsection \<open>Consolidator\<close>

lemma insort_key_pair:
  "insort_key snd (x, f x) (map (\<lambda>p. (p, f p)) ys) = map (\<lambda>p. (p, f p)) (insort_key f x ys)"
  by (induction ys) simp_all

lemma sort_key_pair:
  "sort_key snd (map (\<lambda>p. (p, f p)) xs) = map (\<lambda>p. (p, f p)) (sort_key f xs)"
  by (induction xs) (simp_all add: insort_key_pair)

lemma filter_pair:
  "filter (\<lambda>(p, a). P a) (map (\<lambda>p. (p, f p)) xs) = map (\<lambda>p. (p, f p)) (filter (\<lambda>p. P (f p)) xs)"
  by (induction xs) simp_all

lemma csvs_con_anio_alt:
  "csvs_con_anio csvs =
     map (\<lambda>p. (p, extraer_anio_de_nombre (nombre p)))
         (sort_key (\<lambda>p. extraer_anio_de_nombre (nombre p)) (filter aceptado csvs))"
  unfolding csvs_con_anio_def aceptado_def
  by (simp only: filter_pair sort_key_pair)

lemma csvs_con_anio_filter: "csvs_con_anio (filter aceptado csvs) = csvs_con_anio csvs"
  by (simp add: csvs_con_anio_alt)

lemma csvs_con_anio_empty: "csvs_con_anio csvs = [] \<longleftrightarrow> filter aceptado csvs = []"
proof -
  have "length (csvs_con_anio csvs) = length (filter aceptado csvs)"
    by (simp add: csvs_con_anio_alt)
  then show ?thesis by (metis length_0_conv)
qed

lemma procesar_archivos_Inr:
  assumes "procesar_archivos st ps = Inr st'"
  shows "ic_rows st' = ic_rows st @ concat (map filas_de ps)"
    and "ic_total st' = ic_total st + length (concat (map filas_de ps))"
  using assms
proof (induction ps arbitrary: st)
  case Nil
  { case 1 then show ?case by simp }
  { case 2 then show ?case by simp }
next
  case (Cons pa ps)
  obtain p a where pa: "pa = (p, a)" by (cases pa)
  { case 1
    then obtain df where df: "procesar_archivo p a = Inr df"
      and rest: "procesar_archivos
            \<lparr>ic_primera = False, ic_total = ic_total st + length (rows df),
             ic_header = (if ic_primera st then columns df else ic_header st),
             ic_rows = ic_rows st @ rows df, ic_ncols = length (columns df)\<rparr> ps = Inr st'"
      unfolding pa by (auto split: sum.splits)
    from Cons.IH(1)[OF rest] df show ?case by (simp add: pa filas_de_def) }
  { case 2
    then obtain df where df: "procesar_archivo p a = Inr df"
      and rest: "procesar_archivos
            \<lparr>ic_primera = False, ic_total = ic_total st + length (rows df),
             ic_header = (if ic_primera st then columns df else ic_header st),
             ic_rows = ic_rows st @ rows df, ic_ncols = length (columns df)\<rparr> ps = Inr st'"
      unfolding pa by (auto split: sum.splits)
    from Cons.IH(2)[OF rest] df show ?case by (simp add: pa filas_de_def) }
qed





lemma run_Inr_icfes:
  assumes "transform_icfes_run raw cands = Inr res"
  shows "salida_rows res = concat (map filas_de (csvs_con_anio (csvs_de raw cands)))"
    and "total_filas res = length (salida_rows res)"
    and "archivos_procesados res = length (filter aceptado (csvs_de raw cands))"
    and "anios res = sort (map snd (csvs_con_anio (csvs_de raw cands)))"
    and "filter aceptado (csvs_de raw cands) \<noteq> []"
proof -
  let ?csvs = "csvs_de raw cands"
  let ?st0 = "\<lparr>ic_primera = True, ic_total = 0, ic_header = [], ic_rows = [], ic_ncols = 0\<rparr>"
  from assms obtain st where ne: "csvs_con_anio ?csvs \<noteq> []"
    and st: "procesar_archivos ?st0 (csvs_con_anio ?csvs) = Inr st"
    and res: "res = \<lparr>salida_columns = ic_header st, salida_rows = ic_rows st,
                     total_filas = ic_total st, n_columns = ic_ncols st,
                     archivos_procesados = length (csvs_con_anio ?csvs),
                     anios = sort (map snd (csvs_con_anio ?csvs))\<rparr>"
    by (auto simp: transform_icfes_run_def csvs_de_def Let_def split: if_splits sum.splits)
  note inv = procesar_archivos_Inr[OF st]
  show "salida_rows res = concat (map filas_de (csvs_con_anio ?csvs))"
    using inv(1) by (simp add: res)
  show "total_filas res = length (salida_rows res)"
    using inv by (simp add: res)
  show "archivos_procesados res = length (filter aceptado ?csvs)"
    by (simp add: res csvs_con_anio_alt)
  show "anios res = sort (map snd (csvs_con_anio ?csvs))" by (simp add: res)
  show "filter aceptado ?csvs \<noteq> []" using ne csvs_con_anio_empty by blast
qed

lemma run_only_accepted:
  assumes "transform_icfes_run raw cands = Inr res"
  shows "transform_icfes_run (filter aceptado (csvs_de raw cands)) [] = Inr res"
proof -
  let ?csvs = "csvs_de raw cands"
  have ne: "filter aceptado ?csvs \<noteq> []" using assms by (rule run_Inr_icfes(5))
  then have c: "?csvs \<noteq> []" by auto
  have "transform_icfes_run raw cands =
        (let con_anio = csvs_con_anio ?csvs
         in if con_anio = []
            then Inl (FileNotFoundError ''No encontre CSV de ICFES para 2015-2023'')
            else (case procesar_archivos
                         \<lparr>ic_primera = True, ic_total = 0, ic_header = [],
                          ic_rows = [], ic_ncols = 0\<rparr> con_anio of
                    Inl e \<Rightarrow> Inl e
                  | Inr st \<Rightarrow>
                      Inr \<lparr>salida_columns = ic_header st, salida_rows = ic_rows st,
                           total_filas = ic_total st, n_columns = ic_ncols st,
                           archivos_procesados = length con_anio,
                           anios = sort (map snd con_anio)\<rparr>))"
    using c by (simp add: transform_icfes_run_def csvs_de_def Let_def)
  moreover have "transform_icfes_run (filter aceptado ?csvs) [] =
        (let con_anio = csvs_con_anio (filter aceptado ?csvs)
         in if con_anio = []
            then Inl (FileNotFoundError ''No encontre CSV de ICFES para 2015-2023'')
            else (case procesar_archivos
                         \<lparr>ic_primera = True, ic_total = 0, ic_header = [],
                          ic_rows = [], ic_ncols = 0\<rparr> con_anio of
                    Inl e \<Rightarrow> Inl e
                  | Inr st \<Rightarrow>
                      Inr \<lparr>salida_columns = ic_header st, salida_rows = ic_rows st,
                           total_filas = ic_total st, n_columns = ic_ncols st,
                           archivos_procesados = length con_anio,
                           anios = sort (map snd con_anio)\<rparr>))"
    using ne by (simp add: transform_icfes_run_def Let_def)
  ultimately show ?thesis using assms by (simp add: csvs_con_anio_filter)
qed



lemmas icfes_eval = transform_icfes_run_def csvs_con_anio_def en_ventana_def
  extraer_anio_de_nombre_def procesar_archivo_def read_csv_robusto_def fillna_vacio_def
  seleccionar_def set_column_def columna_def cell_of_def columnas_seleccionadas_def
  columnas_mantener_patrones_def anio_columnas_def depto_columnas_def sin_repetir_def
  dropna_criticas_def rename_def astype_str_def col_anio_def lower_def strip_def
  py_isspace_def is_digit_def digit_val_def digits_val_def digits.simps Let_def
  aceptado_def csvs_de_def

text \<open>
  Claim C5, as stated, fails: a file named for 2019 whose period column holds 2014 is
  accepted, and its rows reach the output with the year 2014; a file named for 2010 whose
  period column holds 2019 is excluded. The period column has no part in accepting a
  file.
\<close>

theorem period_column_does_not_decide_acceptance:
  "columna (contenido ex_nombre_2019_periodo_2014) ''periodo'' = [Some ''20141'']
   \<and> transform_icfes_run [ex_nombre_2019_periodo_2014] [] = Inr ex_consolidado_2014
   \<and> salida_rows ex_consolidado_2014 = [[Some ''2014'', Some ''250'']]
   \<and> columna (contenido ex_nombre_2010_periodo_2019) ''periodo'' = [Some ''20194'']
   \<and> transform_icfes_run [ex_nombre_2010_periodo_2019] []
       = Inl (FileNotFoundError ''No encontre CSV de ICFES para 2015-2023'')"
  by (simp add: icfes_eval norm_eval ex_nombre_2019_periodo_2014_def
        ex_nombre_2010_periodo_2019_def ex_consolidado_2014_def)

text \<open>
  Claim C5, amended. The year that accepts or excludes a file, and that orders the files,
  is the year of the file name alone: the accepted files are those whose file-name year
  lies in 2015-2023, they are processed in ascending order of that year (files of one year
  in input order), and the output rows are the rows of the accepted files in that order.
  A file outside the window is excluded entirely: the run with the excluded files removed
  from its input gives the same result.
\<close>

theorem acceptance_by_file_name_year:
  assumes "transform_icfes_run raw_csvs candidatos = Inr res"
  shows "salida_rows res =
           concat (map (\<lambda>p. filas_de (p, extraer_anio_de_nombre (nombre p)))
                       (sort_key (\<lambda>p. extraer_anio_de_nombre (nombre p))
                                 (filter aceptado (csvs_de raw_csvs candidatos))))
       \<and> archivos_procesados res = length (filter aceptado (csvs_de raw_csvs candidatos))
       \<and> transform_icfes_run (filter aceptado (csvs_de raw_csvs candidatos)) [] = Inr res"
proof -
  have "salida_rows res = concat (map filas_de (csvs_con_anio (csvs_de raw_csvs candidatos)))"
    using assms by (rule run_Inr_icfes(1))
  then have "salida_rows res =
           concat (map (\<lambda>p. filas_de (p, extraer_anio_de_nombre (nombre p)))
                       (sort_key (\<lambda>p. extraer_anio_de_nombre (nombre p))
                                 (filter aceptado (csvs_de raw_csvs candidatos))))"
    by (simp add: csvs_con_anio_alt comp_def)
  then show ?thesis
    using run_Inr_icfes(3)[OF assms] run_only_accepted[OF assms] by simp
qed

theorem acceptance_by_file_name_year_witness:
  "transform_icfes_run [ex_sin_anio, ex_2019] [] = Inr ex_consolidado
   \<and> filter aceptado (csvs_de [ex_sin_anio, ex_2019] []) = [ex_2019]
   \<and> archivos_procesados ex_consolidado = 1
   \<and> transform_icfes_run [ex_2019] [] = Inr ex_consolidado"
proof -
  have r: "transform_icfes_run [ex_sin_anio, ex_2019] [] = Inr ex_consolidado"
    by (simp add: icfes_eval norm_eval ex_2019_def ex_sin_anio_def ex_consolidado_def)
  have f: "filter aceptado (csvs_de [ex_sin_anio, ex_2019] []) = [ex_2019]"
    by (simp add: icfes_eval ex_2019_def ex_sin_anio_def)
  show ?thesis
    using acceptance_by_file_name_year[OF r] r f by simp
qed





subsection \<open>Bulk loader\<close>






end
